theory Spec2Isabelle
  imports Complex_Main
begin

section \<open>JavaScript values and arrays\<close>

text \<open>
  Colors are JavaScript strings such as "#f0f0f0". A read of a missing array element or
  of a missing property gives \<open>undefined\<close>, which can then flow into the state (the pick
  tool stores what it reads), so \<open>undefined\<close> is a value of the model. On strings and
  \<open>undefined\<close> the loose comparisons \<open>==\<close> and \<open>!=\<close> of the source are equality and
  inequality of these values.
\<close>

datatype jsval = Undefined | Str string

text \<open>
  A JavaScript array is an object: a \<open>length\<close> and a value for every property key. Only
  integer keys occur here: coordinates are the integers that \<open>Math.floor\<close> gives
  \<open>pointerPosition\<close>, taken as unbounded integers. Reading any key never fails; a key
  with no value reads \<open>undefined\<close>. Writing at an array index (an integer from 0 up to
  \<open>2^32 - 2\<close>) at or beyond \<open>length\<close> grows the array; writing at any other integer key
  (a negative one, for instance) sets an ordinary property and leaves \<open>length\<close> alone.
  \<open>slice()\<close> copies the elements below \<open>length\<close> and nothing else. \<open>js_array\<close> is
  the array literal with the given elements.
\<close>

record jsarray =
  len :: int
  slot :: "int \<Rightarrow> jsval"

definition js_array :: "jsval list \<Rightarrow> jsarray" where
  "js_array xs =
     \<lparr>len = int (length xs),
      slot = (\<lambda>i. if 0 \<le> i \<and> i < int (length xs) then xs ! nat i else Undefined)\<rparr>"

definition js_get :: "jsarray \<Rightarrow> int \<Rightarrow> jsval" where
  "js_get a i = slot a i"

definition js_set :: "jsarray \<Rightarrow> int \<Rightarrow> jsval \<Rightarrow> jsarray" where
  "js_set a i v =
     \<lparr>len = (if 0 \<le> i \<and> i < 4294967295 \<and> len a \<le> i then i + 1 else len a),
      slot = (slot a)(i := v)\<rparr>"

definition js_slice :: "jsarray \<Rightarrow> jsarray" where
  "js_slice a =
     \<lparr>len = len a,
      slot = (\<lambda>i. if 0 \<le> i \<and> i < len a then slot a i else Undefined)\<rparr>"

section \<open>The picture (app.js, class Picture)\<close>

record Picture =
  width :: int
  height :: int
  pixels :: jsarray

record edit =
  edit_x :: int
  edit_y :: int
  edit_color :: jsval

datatype error = RangeError

text \<open>
  \<open>Picture.empty\<close>: \<open>new Array(n)\<close> raises a RangeError unless \<open>n\<close> is an integer with
  \<open>0 \<le> n < 2^32\<close>; \<open>fill\<close> then stores the color at every index below \<open>n\<close>.
\<close>

definition Picture_empty :: "int \<Rightarrow> int \<Rightarrow> jsval \<Rightarrow> error + Picture" where
  "Picture_empty w h c =
     (if 0 \<le> w * h \<and> w * h < 4294967296
      then Inr \<lparr>width = w, height = h,
                pixels = \<lparr>len = w * h,
                          slot = (\<lambda>i. if 0 \<le> i \<and> i < w * h then c else Undefined)\<rparr>\<rparr>
      else Inl RangeError)"

text \<open>
  \<open>pixel\<close> and \<open>draw\<close> index the array at \<open>x + y * width\<close> and test nothing: the
  source has no bounds check in either.
\<close>

definition pixel :: "Picture \<Rightarrow> int \<Rightarrow> int \<Rightarrow> jsval" where
  "pixel p x y = js_get (pixels p) (x + y * width p)"

definition draw :: "Picture \<Rightarrow> edit list \<Rightarrow> Picture" where
  "draw p es =
     \<lparr>width = width p, height = height p,
      pixels = foldl (\<lambda>copy e. js_set copy (edit_x e + edit_y e * width p) (edit_color e))
                 (js_slice (pixels p)) es\<rparr>"

text \<open>
  The cells of a picture are the coordinates inside its bounds.
\<close>

definition in_bounds :: "Picture \<Rightarrow> int \<Rightarrow> int \<Rightarrow> bool" where
  "in_bounds p x y = (0 \<le> x \<and> x < width p \<and> 0 \<le> y \<and> y < height p)"

section \<open>State, actions and the history reducer (app.js, steps 1, 7 and 8)\<close>

record state =
  tool :: string
  color :: jsval
  picture :: Picture
  "done" :: "Picture list"
  doneAt :: int

text \<open>
  An action is an object with some of the fields \<open>tool\<close>, \<open>color\<close>, \<open>picture\<close> and
  \<open>undo\<close>; \<open>None\<close> is an absent field. The only value the source ever gives \<open>undo\<close> is
  \<open>true\<close>, so \<open>act_undo\<close> says whether \<open>action.undo == true\<close>.
\<close>

record action =
  act_tool :: "string option"
  act_color :: "jsval option"
  act_picture :: "Picture option"
  act_undo :: bool

definition no_action :: action where
  "no_action = \<lparr>act_tool = None, act_color = None, act_picture = None, act_undo = False\<rparr>"

definition undo_action :: action where
  "undo_action = no_action\<lparr>act_undo := True\<rparr>"

definition picture_action :: "Picture \<Rightarrow> action" where
  "picture_action p = no_action\<lparr>act_picture := Some p\<rparr>"

definition color_action :: "jsval \<Rightarrow> action" where
  "color_action c = no_action\<lparr>act_color := Some c\<rparr>"

text \<open>
  \<open>Object.assign({}, state, action)\<close>: the fields present in the action replace the
  state's.
\<close>

definition updateState :: "state \<Rightarrow> action \<Rightarrow> state" where
  "updateState s a =
     s\<lparr>tool := (case act_tool a of None \<Rightarrow> tool s | Some t \<Rightarrow> t),
       color := (case act_color a of None \<Rightarrow> color s | Some c \<Rightarrow> c),
       picture := (case act_picture a of None \<Rightarrow> picture s | Some p \<Rightarrow> p)\<rparr>"

text \<open>
  \<open>historyUpdateState\<close> reads the clock: \<open>Date.now()\<close> once in the test of the second
  branch (the reading \<open>now\<close>) and once more for the stored checkpoint (the reading
  \<open>now'\<close>). \<open>state.done[0]\<close> is read only where \<open>state.done\<close> is not empty.
\<close>

definition historyUpdateState :: "int \<Rightarrow> int \<Rightarrow> state \<Rightarrow> action \<Rightarrow> state" where
  "historyUpdateState now now' s a =
     (if act_undo a then
        (if length (done s) = 0 then s
         else s\<lparr>picture := done s ! 0, done := drop 1 (done s), doneAt := 0\<rparr>)
      else if act_picture a \<noteq> None \<and> doneAt s < now - 1000 then
        (updateState s a)\<lparr>done := picture s # done s, doneAt := now'\<rparr>
      else updateState s a)"

definition startPicture :: Picture where
  "startPicture =
     \<lparr>width = 60, height = 30,
      pixels = \<lparr>len = 1800,
                slot = (\<lambda>i. if 0 \<le> i \<and> i < 1800 then Str ''#f0f0f0'' else Undefined)\<rparr>\<rparr>"

definition startState :: state where
  "startState =
     \<lparr>tool = ''draw'', color = Str ''#000000'', picture = startPicture,
      done = [], doneAt = 0\<rparr>"

section \<open>Counting loops\<close>

text \<open>
  \<open>for (let i = a; i < n; i++)\<close> and \<open>for (let i = a; i <= n; i++)\<close> over integers, with
  the loop body as a function of the counter and of the variables the loop updates.
\<close>

function for_lt :: "int \<Rightarrow> int \<Rightarrow> (int \<Rightarrow> 's \<Rightarrow> 's) \<Rightarrow> 's \<Rightarrow> 's" where
  "for_lt i n body s = (if i < n then for_lt (i + 1) n body (body i s) else s)"
  by pat_completeness auto
termination
  by (relation "measure (\<lambda>(i, n, body, s). nat (n - i))") auto

function for_le :: "int \<Rightarrow> int \<Rightarrow> (int \<Rightarrow> 's \<Rightarrow> 's) \<Rightarrow> 's \<Rightarrow> 's" where
  "for_le i n body s = (if i \<le> n then for_le (i + 1) n body (body i s) else s)"
  by pat_completeness auto
termination
  by (relation "measure (\<lambda>(i, n, body, s). nat (n + 1 - i))") auto

declare for_lt.simps [simp del] for_le.simps [simp del]

section \<open>Drawing tools (app.js, step 5, and circle.js)\<close>

text \<open>
  A tool is called with a position, the state and \<open>dispatch\<close>. The model returns the
  actions the call dispatches, in order, and the function the tool returns for the
  following pointer moves (\<open>None\<close> where the source returns nothing). Each function that
  builds an array \<open>drawn\<close> of edits and dispatches \<open>state.picture.draw(drawn)\<close> is in two
  parts here, the array (\<open>..._drawn\<close>) and the dispatch, so that the edits can be named.
\<close>

record pos =
  pos_x :: int
  pos_y :: int

definition drawPixel_drawn :: "pos \<Rightarrow> state \<Rightarrow> edit list" where
  "drawPixel_drawn p s = [\<lparr>edit_x = pos_x p, edit_y = pos_y p, edit_color = color s\<rparr>]"

definition drawPixel :: "pos \<Rightarrow> state \<Rightarrow> action list" where
  "drawPixel p s = [picture_action (draw (picture s) (drawPixel_drawn p s))]"

definition tool_draw :: "pos \<Rightarrow> state \<Rightarrow> action list \<times> (pos \<Rightarrow> state \<Rightarrow> action list) option" where
  "tool_draw p s = (drawPixel p s, Some drawPixel)"

text \<open>
  \<open>drawRectangle\<close> takes the position only: the state is the one of the pointer-down
  event, whatever state the caller passes later.
\<close>

definition drawRectangle_drawn :: "pos \<Rightarrow> state \<Rightarrow> pos \<Rightarrow> edit list" where
  "drawRectangle_drawn start s p =
     (let xStart = min (pos_x start) (pos_x p);
          yStart = min (pos_y start) (pos_y p);
          xEnd = max (pos_x start) (pos_x p);
          yEnd = max (pos_y start) (pos_y p)
      in for_le yStart yEnd
           (\<lambda>y. for_le xStart xEnd
              (\<lambda>x drawn. drawn @ [\<lparr>edit_x = x, edit_y = y, edit_color = color s\<rparr>]))
           [])"

definition drawRectangle :: "pos \<Rightarrow> state \<Rightarrow> pos \<Rightarrow> action list" where
  "drawRectangle start s p = [picture_action (draw (picture s) (drawRectangle_drawn start s p))]"

definition rectangle :: "pos \<Rightarrow> state \<Rightarrow> action list \<times> (pos \<Rightarrow> state \<Rightarrow> action list) option" where
  "rectangle start s = (drawRectangle start s start, Some (\<lambda>p _. drawRectangle start s p))"

text \<open>
  Flood fill. \<open>fill_visit\<close> is the body of the inner loop for one direction, and
  \<open>fill_loop\<close> the outer loop, whose bound \<open>drawn.length\<close> grows while it runs. The
  counter \<open>k\<close> (\<open>done\<close> in the source) is below the length of \<open>drawn\<close> wherever
  \<open>drawn[done]\<close> is read.
\<close>

definition around :: "(int \<times> int) list" where
  "around = [(-1, 0), (1, 0), (0, -1), (0, 1)]"

definition fill_visit :: "state \<Rightarrow> jsval \<Rightarrow> nat \<Rightarrow> edit list \<Rightarrow> int \<times> int \<Rightarrow> edit list" where
  "fill_visit s targetColor k drawn d =
     (let x = edit_x (drawn ! k) + fst d; y = edit_y (drawn ! k) + snd d
      in if x \<ge> 0 \<and> x < width (picture s) \<and>
            y \<ge> 0 \<and> y < height (picture s) \<and>
            pixel (picture s) x y = targetColor \<and>
            \<not> list_ex (\<lambda>p. edit_x p = x \<and> edit_y p = y) drawn
         then drawn @ [\<lparr>edit_x = x, edit_y = y, edit_color = color s\<rparr>]
         else drawn)"

text \<open>
  The outer loop ends because every cell it adds is a cell inside the picture that
  \<open>drawn\<close> did not hold: either the cells not yet held become fewer, or \<open>drawn\<close>
  stays as it is and the counter gets closer to its length.
\<close>

definition coords :: "edit \<Rightarrow> int \<times> int" where
  "coords e = (edit_x e, edit_y e)"

definition uncovered :: "Picture \<Rightarrow> edit list \<Rightarrow> (int \<times> int) set" where
  "uncovered p drawn = {c \<in> {0..<width p} \<times> {0..<height p}. c \<notin> coords ` set drawn}"

definition grows :: "Picture \<Rightarrow> edit list \<Rightarrow> edit list \<Rightarrow> bool" where
  "grows p drawn drawn' =
     (drawn' = drawn \<or>
      (length drawn \<le> length drawn' \<and> uncovered p drawn' \<subset> uncovered p drawn))"

lemma finite_uncovered: "finite (uncovered p drawn)"
  by (simp add: uncovered_def)

lemma grows_refl: "grows p drawn drawn"
  by (simp add: grows_def)

lemma grows_trans: "grows p a b \<Longrightarrow> grows p b c \<Longrightarrow> grows p a c"
  by (auto simp: grows_def)

lemma fill_visit_cases:
  "fill_visit s t k drawn d = drawn \<or>
   (\<exists>e. fill_visit s t k drawn d = drawn @ [e] \<and> in_bounds (picture s) (edit_x e) (edit_y e) \<and>
        pixel (picture s) (edit_x e) (edit_y e) = t \<and> edit_color e = color s \<and>
        coords e \<notin> coords ` set drawn \<and>
        coords e = (edit_x (drawn ! k) + fst d, edit_y (drawn ! k) + snd d))"
  by (auto simp: fill_visit_def Let_def in_bounds_def coords_def list_ex_iff)

lemma grows_fill_visit: "grows (picture s) drawn (fill_visit s t k drawn d)"
proof -
  from fill_visit_cases [of s t k drawn d] show ?thesis
  proof
    assume "fill_visit s t k drawn d = drawn"
    then show ?thesis by (simp add: grows_def)
  next
    assume "\<exists>e. fill_visit s t k drawn d = drawn @ [e] \<and>
      in_bounds (picture s) (edit_x e) (edit_y e) \<and>
      pixel (picture s) (edit_x e) (edit_y e) = t \<and> edit_color e = color s \<and>
      coords e \<notin> coords ` set drawn \<and>
      coords e = (edit_x (drawn ! k) + fst d, edit_y (drawn ! k) + snd d)"
    then obtain e where e: "fill_visit s t k drawn d = drawn @ [e]"
      "in_bounds (picture s) (edit_x e) (edit_y e)" "coords e \<notin> coords ` set drawn"
      by blast
    have "coords e \<in> uncovered (picture s) drawn"
      using e(2,3) by (simp add: uncovered_def in_bounds_def coords_def)
    moreover have "coords e \<notin> uncovered (picture s) (drawn @ [e])"
      by (simp add: uncovered_def)
    moreover have "uncovered (picture s) (drawn @ [e]) \<subseteq> uncovered (picture s) drawn"
      by (auto simp: uncovered_def)
    ultimately have "uncovered (picture s) (drawn @ [e]) \<subset> uncovered (picture s) drawn"
      by blast
    then show ?thesis by (simp add: grows_def e(1))
  qed
qed

lemma grows_around:
  "grows (picture s) drawn (foldl (fill_visit s t k) drawn around)"
  unfolding around_def foldl.simps
  by (blast intro: grows_trans grows_fill_visit)

function fill_loop :: "state \<Rightarrow> jsval \<Rightarrow> nat \<Rightarrow> edit list \<Rightarrow> edit list" where
  "fill_loop s targetColor k drawn =
     (if k < length drawn
      then fill_loop s targetColor (Suc k) (foldl (fill_visit s targetColor k) drawn around)
      else drawn)"
  by pat_completeness auto
termination
proof (relation "measures [\<lambda>(s, t, k, drawn). card (uncovered (picture s) drawn),
                            \<lambda>(s, t, k, drawn). length drawn - k]")
  show "wf (measures [\<lambda>(s, t, k, drawn). card (uncovered (picture s) drawn),
                            \<lambda>(s, t, k, drawn). length drawn - k])"
    by simp
next
  fix s :: state and targetColor :: jsval and k :: nat and drawn :: "edit list"
  assume k: "k < length drawn"
  let ?d = "foldl (fill_visit s targetColor k) drawn around"
  have "grows (picture s) drawn ?d" by (rule grows_around)
  then consider "?d = drawn"
    | "length drawn \<le> length ?d" "uncovered (picture s) ?d \<subset> uncovered (picture s) drawn"
    by (auto simp: grows_def)
  then show "((s, targetColor, Suc k, ?d), (s, targetColor, k, drawn))
       \<in> measures [\<lambda>(s, t, k, drawn). card (uncovered (picture s) drawn),
                            \<lambda>(s, t, k, drawn). length drawn - k]"
  proof cases
    case 1
    then show ?thesis using k by simp
  next
    case 2
    then have "card (uncovered (picture s) ?d) < card (uncovered (picture s) drawn)"
      by (simp add: psubset_card_mono finite_uncovered)
    then show ?thesis by simp
  qed
qed

declare fill_loop.simps [simp del]

definition fill_drawn :: "pos \<Rightarrow> state \<Rightarrow> edit list" where
  "fill_drawn p s =
     (let targetColor = pixel (picture s) (pos_x p) (pos_y p)
      in fill_loop s targetColor 0
           [\<lparr>edit_x = pos_x p, edit_y = pos_y p, edit_color = color s\<rparr>])"

definition fill :: "pos \<Rightarrow> state \<Rightarrow> action list \<times> (pos \<Rightarrow> state \<Rightarrow> action list) option" where
  "fill p s = ([picture_action (draw (picture s) (fill_drawn p s))], None)"

definition pick :: "pos \<Rightarrow> state \<Rightarrow> action list \<times> (pos \<Rightarrow> state \<Rightarrow> action list) option" where
  "pick p s = ([color_action (pixel (picture s) (pos_x p) (pos_y p))], None)"

text \<open>
  The circle tool. \<open>Math.sqrt\<close> is the real square root here and \<open>Math.ceil\<close> the
  ceiling: the rounding of floating point numbers is not part of the model. No property
  below depends on the distance test.
\<close>

definition drawCircle_drawn :: "pos \<Rightarrow> state \<Rightarrow> pos \<Rightarrow> edit list" where
  "drawCircle_drawn p s to =
     (let radius = sqrt ((real_of_int (pos_x to - pos_x p))\<^sup>2 + (real_of_int (pos_y to - pos_y p))\<^sup>2);
          radiusC = \<lceil>radius\<rceil>
      in for_le (- radiusC) radiusC
           (\<lambda>dy. for_le (- radiusC) radiusC
              (\<lambda>dx drawn.
                 let dist = sqrt ((real_of_int dx)\<^sup>2 + (real_of_int dy)\<^sup>2)
                 in if dist > radius then drawn
                    else let y = pos_y p + dy; x = pos_x p + dx
                         in if y < 0 \<or> y \<ge> height (picture s) \<or>
                               x < 0 \<or> x \<ge> width (picture s) then drawn
                            else drawn @ [\<lparr>edit_x = x, edit_y = y, edit_color = color s\<rparr>]))
           [])"

definition drawCircle :: "pos \<Rightarrow> state \<Rightarrow> pos \<Rightarrow> action list" where
  "drawCircle p s to = [picture_action (draw (picture s) (drawCircle_drawn p s to))]"

definition circle :: "pos \<Rightarrow> state \<Rightarrow> action list \<times> (pos \<Rightarrow> state \<Rightarrow> action list) option" where
  "circle p s = (drawCircle p s p, Some (\<lambda>to _. drawCircle p s to))"

section \<open>The canvas (the file that redefines syncState and drawPicture)\<close>

text \<open>
  Of the canvas the model keeps its size, the current \<open>fillStyle\<close> and the calls of
  \<open>fillRect\<close> made so far, in order, each with the style it was made under. How the
  canvas reads a color string is not part of the model.
\<close>

record fill_rect =
  rect_x :: int
  rect_y :: int
  rect_w :: int
  rect_h :: int
  rect_style :: jsval

record canvas =
  canvas_width :: int
  canvas_height :: int
  fillStyle :: jsval
  filled :: "fill_rect list"

definition scale :: int where
  "scale = 10"

definition drawPicture :: "Picture \<Rightarrow> canvas \<Rightarrow> int \<Rightarrow> Picture option \<Rightarrow> canvas" where
  "drawPicture pic cv scl previous =
     (let resize = (case previous of None \<Rightarrow> True
                    | Some q \<Rightarrow> width q \<noteq> width pic \<or> height q \<noteq> height pic);
          cv1 = (if resize
                 then cv\<lparr>canvas_width := width pic * scl, canvas_height := height pic * scl\<rparr>
                 else cv);
          previous1 = (if resize then None else previous)
      in for_lt 0 (height pic)
           (\<lambda>y. for_lt 0 (width pic)
              (\<lambda>x cx.
                 let col = pixel pic x y
                 in if (case previous1 of None \<Rightarrow> True | Some q \<Rightarrow> pixel q x y \<noteq> col)
                    then cx\<lparr>fillStyle := col,
                            filled := filled cx @
                              [\<lparr>rect_x = x * scl, rect_y = y * scl,
                                rect_w = scl, rect_h = scl, rect_style = col\<rparr>]\<rparr>
                    else cx))
           cv1)"

text \<open>
  \<open>syncState\<close> compares pictures with \<open>==\<close>, that is as objects. Pictures are
  therefore held by reference here: \<open>heap\<close> gives the picture behind a reference, and
  \<open>picture_ref\<close> is \<open>this.picture\<close>, \<open>None\<close> before the first call.
\<close>

type_synonym ref = nat

record PictureCanvas =
  dom_canvas :: canvas
  picture_ref :: "ref option"

definition syncState :: "(ref \<Rightarrow> Picture) \<Rightarrow> PictureCanvas \<Rightarrow> ref \<Rightarrow> PictureCanvas" where
  "syncState heap this r =
     (if picture_ref this = Some r then this
      else this\<lparr>dom_canvas :=
                  drawPicture (heap r) (dom_canvas this) scale (map_option heap (picture_ref this)),
                picture_ref := Some r\<rparr>)"

section \<open>Notions used to state the properties\<close>

text \<open>
  A grid is a picture as the data model describes it: positive size, one array element
  per cell and no other property on the array.
\<close>

definition grid :: "Picture \<Rightarrow> bool" where
  "grid g =
     (0 < width g \<and> 0 < height g \<and> len (pixels g) = width g * height g \<and>
      (\<forall>i. \<not> (0 \<le> i \<and> i < len (pixels g)) \<longrightarrow> slot (pixels g) i = Undefined))"

text \<open>
  The last edit of a sequence at a coordinate, if there is one, and a sequence of edits
  that are all inside a picture.
\<close>

definition last_edit_at :: "edit list \<Rightarrow> int \<Rightarrow> int \<Rightarrow> edit option" where
  "last_edit_at es x y = find (\<lambda>e. edit_x e = x \<and> edit_y e = y) (rev es)"

definition all_in_bounds :: "Picture \<Rightarrow> edit list \<Rightarrow> bool" where
  "all_in_bounds g es = list_all (\<lambda>e. in_bounds g (edit_x e) (edit_y e)) es"

text \<open>
  What it means for the entry \<open>i\<close> of a flood fill's list to come from an expansion:
  its cell is inside the picture, has the target color and is next to (left, right, above
  or below) a cell entered before it.
\<close>

definition adjacent :: "edit \<Rightarrow> edit \<Rightarrow> bool" where
  "adjacent a b = (\<bar>edit_x a - edit_x b\<bar> + \<bar>edit_y a - edit_y b\<bar> = 1)"

definition expanded :: "state \<Rightarrow> jsval \<Rightarrow> edit list \<Rightarrow> nat \<Rightarrow> bool" where
  "expanded s t drawn i =
     (in_bounds (picture s) (edit_x (drawn ! i)) (edit_y (drawn ! i)) \<and>
      pixel (picture s) (edit_x (drawn ! i)) (edit_y (drawn ! i)) = t \<and>
      (\<exists>j < i. adjacent (drawn ! j) (drawn ! i)))"

definition fill_inv :: "state \<Rightarrow> jsval \<Rightarrow> edit list \<Rightarrow> bool" where
  "fill_inv s t drawn =
     (distinct (map coords drawn) \<and>
      (\<forall>e \<in> set drawn. edit_color e = color s) \<and>
      (\<forall>i. 0 < i \<and> i < length drawn \<longrightarrow> expanded s t drawn i))"

text \<open>
  The cells of a picture in the order of the two loops of \<open>drawPicture\<close>, the call of
  \<open>fillRect\<close> for a cell, and the two cases of \<open>drawPicture\<close>.
\<close>

definition cells :: "Picture \<Rightarrow> (int \<times> int) list" where
  "cells p = concat (map (\<lambda>y. map (\<lambda>x. (x, y)) [0..width p - 1]) [0..height p - 1])"

definition cell_rect :: "Picture \<Rightarrow> int \<Rightarrow> int \<times> int \<Rightarrow> fill_rect" where
  "cell_rect p sc c =
     \<lparr>rect_x = fst c * sc, rect_y = snd c * sc, rect_w = sc, rect_h = sc,
      rect_style = pixel p (fst c) (snd c)\<rparr>"

definition repaint_all :: "Picture \<Rightarrow> Picture option \<Rightarrow> bool" where
  "repaint_all p prev =
     (case prev of None \<Rightarrow> True | Some q \<Rightarrow> width q \<noteq> width p \<or> height q \<noteq> height p)"

definition changed :: "Picture \<Rightarrow> Picture option \<Rightarrow> int \<times> int \<Rightarrow> bool" where
  "changed p prev c =
     (repaint_all p prev \<or>
      (case prev of None \<Rightarrow> True | Some q \<Rightarrow> pixel q (fst c) (snd c) \<noteq> pixel p (fst c) (snd c)))"

section \<open>Example values\<close>

definition sample :: Picture where
  "sample =
     \<lparr>width = 2, height = 2,
      pixels = js_array [Str ''#ff0000'', Str ''#ff0000'', Str ''#0000ff'', Str ''#ff0000'']\<rparr>"

definition sample_state :: state where
  "sample_state =
     \<lparr>tool = ''fill'', color = Str ''#ff0000'', picture = sample, done = [], doneAt = 0\<rparr>"

definition sample_edited :: Picture where
  "sample_edited = draw sample [\<lparr>edit_x = 0, edit_y = 1, edit_color = Str ''#000000''\<rparr>]"

definition dot :: "int \<Rightarrow> int \<Rightarrow> edit" where
  "dot x y = \<lparr>edit_x = x, edit_y = y, edit_color = Str ''#000000''\<rparr>"

definition stroke1 :: Picture where
  "stroke1 = draw startPicture [dot 0 0]"

definition stroke2 :: Picture where
  "stroke2 = draw stroke1 [dot 1 0]"

definition after_stroke1 :: state where
  "after_stroke1 = historyUpdateState 5000 5001 startState (picture_action stroke1)"

definition two_strokes :: state where
  "two_strokes =
     historyUpdateState 9000 9000
       (historyUpdateState 5000 5000 startState (picture_action stroke1))
       (picture_action stroke2)"

definition blank_canvas :: canvas where
  "blank_canvas =
     \<lparr>canvas_width = 300, canvas_height = 150, fillStyle = Str ''#000000'', filled = []\<rparr>"

section \<open>Arrays and pictures\<close>

lemma js_get_js_set: "js_get (js_set a i v) j = (if j = i then v else js_get a j)"
  by (simp add: js_get_def js_set_def)

lemma js_get_js_slice:
  "js_get (js_slice a) j = (if 0 \<le> j \<and> j < len a then js_get a j else Undefined)"
  by (simp add: js_get_def js_slice_def)

lemma Picture_empty_start: "Picture_empty 60 30 (Str ''#f0f0f0'') = Inr startPicture"
  by (simp add: Picture_empty_def startPicture_def)

lemma index_inj:
  fixes w :: int
  assumes "0 \<le> x1" "x1 < w" "0 \<le> x2" "x2 < w" "x1 + y1 * w = x2 + y2 * w"
  shows "x1 = x2 \<and> y1 = y2"
proof -
  have m1: "(x1 + y1 * w) mod w = x1" using assms(1,2) by simp
  have m2: "(x2 + y2 * w) mod w = x2" using assms(3,4) by simp
  have d1: "(x1 + y1 * w) div w = y1" using assms(1,2) by simp
  have d2: "(x2 + y2 * w) div w = y2" using assms(3,4) by simp
  from m1 m2 assms(5) have "x1 = x2" by metis
  moreover from d1 d2 assms(5) have "y1 = y2" by metis
  ultimately show ?thesis by simp
qed

lemma index_in_range:
  fixes w :: int
  assumes "0 \<le> x" "x < w" "0 \<le> y" "y < h"
  shows "0 \<le> x + y * w \<and> x + y * w < w * h"
proof -
  have w: "0 < w" using assms(1,2) by simp
  have "0 \<le> y * w" using w assms(3) by simp
  then have lo: "0 \<le> x + y * w" using assms(1) by simp
  have "y + 1 \<le> h" using assms(4) by simp
  then have "(y + 1) * w \<le> h * w" using w by (simp only: mult_right_mono less_imp_le)
  then have "x + y * w < w * h" using assms(2) by (simp add: algebra_simps)
  with lo show ?thesis by simp
qed

lemma div_less_bound:
  fixes w :: int
  assumes "0 < w" and "i < w * h"
  shows "i div w < h"
proof (rule ccontr)
  assume "\<not> i div w < h"
  then have "h \<le> i div w" by simp
  then have "h * w \<le> i div w * w" using assms(1) by (simp only: mult_right_mono less_imp_le)
  moreover have "i div w * w \<le> i"
  proof -
    have "i = i div w * w + i mod w" by simp
    moreover have "0 \<le> i mod w" using assms(1) by simp
    ultimately show ?thesis by linarith
  qed
  ultimately show False using assms(2) by (simp add: mult.commute)
qed

lemma pixel_draw_index:
  "pixel (draw g es) x y =
     (case find (\<lambda>e. edit_x e + edit_y e * width g = x + y * width g) (rev es) of
        Some e \<Rightarrow> edit_color e
      | None \<Rightarrow> js_get (js_slice (pixels g)) (x + y * width g))"
proof (induction es rule: rev_induct)
  case Nil
  then show ?case by (simp add: pixel_def draw_def)
next
  case (snoc e es)
  then show ?case
    by (simp add: pixel_def draw_def js_get_js_set)
qed

lemma find_cong_set:
  "(\<And>e. e \<in> set es \<Longrightarrow> P e = Q e) \<Longrightarrow> find P es = find Q es"
  by (induction es) auto

lemma js_slice_grid:
  assumes "grid g"
  shows "js_slice (pixels g) = pixels g"
proof (rule jsarray.equality)
  show "len (js_slice (pixels g)) = len (pixels g)" by (simp add: js_slice_def)
  show "slot (js_slice (pixels g)) = slot (pixels g)"
  proof (rule ext)
    fix i show "slot (js_slice (pixels g)) i = slot (pixels g) i"
      using assms by (simp add: js_slice_def grid_def)
  qed
  show "jsarray.more (js_slice (pixels g)) = jsarray.more (pixels g)" by simp
qed

lemma js_set_same:
  "0 \<le> i \<Longrightarrow> i < len a \<Longrightarrow> js_set a i (slot a i) = a"
  by (simp add: js_set_def)

lemma draw_same_colors:
  assumes "grid g"
    and "\<forall>e \<in> set es. in_bounds g (edit_x e) (edit_y e) \<and>
           edit_color e = pixel g (edit_x e) (edit_y e)"
  shows "draw g es = g"
proof -
  have "foldl (\<lambda>copy e. js_set copy (edit_x e + edit_y e * width g) (edit_color e))
          (pixels g) es = pixels g"
    using assms(2)
  proof (induction es)
    case Nil
    then show ?case by simp
  next
    case (Cons e es)
    have b: "in_bounds g (edit_x e) (edit_y e)" using Cons.prems by simp
    then have "0 \<le> edit_x e + edit_y e * width g \<and>
        edit_x e + edit_y e * width g < len (pixels g)"
      using assms(1) index_in_range [of "edit_x e" "width g" "edit_y e" "height g"]
      by (simp add: grid_def in_bounds_def)
    moreover have "edit_color e = slot (pixels g) (edit_x e + edit_y e * width g)"
      using Cons.prems by (simp add: pixel_def js_get_def)
    ultimately have "js_set (pixels g) (edit_x e + edit_y e * width g) (edit_color e) = pixels g"
      by (simp add: js_set_same)
    then show ?case using Cons by simp
  qed
  then show ?thesis using assms(1) by (simp add: draw_def js_slice_grid)
qed

lemma grid_sample: "grid sample"
  by (simp add: grid_def sample_def js_array_def)

lemma pixel_startPicture_0: "pixel startPicture 0 0 = Str ''#f0f0f0''"
  by (simp add: pixel_def startPicture_def js_get_def)

lemma pixel_stroke1_0: "pixel stroke1 0 0 = Str ''#000000''"
  by (simp add: stroke1_def dot_def pixel_draw_index)

lemma stroke1_neq_start: "stroke1 \<noteq> startPicture"
  using pixel_startPicture_0 pixel_stroke1_0 by auto

lemma pixel_sample_edited:
  "pixel sample_edited x y = (if x + y * 2 = 2 then Str ''#000000'' else pixel sample x y)"
  by (simp add: sample_edited_def pixel_draw_index js_get_js_slice)
    (simp add: pixel_def sample_def js_array_def js_get_def)

text \<open>
  Claim C2, as the code has it. \<open>draw\<close> writes each edit at the index
  \<open>x + y * width\<close>, in order. When every edit has its \<open>x\<close> inside \<open>[0, width)\<close> (every
  edit inside the grid does), a cell inside the grid ends with the color of the last edit at
  its coordinates, or keeps its color when no edit is at its coordinates.
\<close>

theorem pixel_draw_last_edit:
  assumes "grid g" and "in_bounds g x y"
    and "\<forall>e \<in> set es. 0 \<le> edit_x e \<and> edit_x e < width g"
  shows "pixel (draw g es) x y =
           (case last_edit_at es x y of Some e \<Rightarrow> edit_color e | None \<Rightarrow> pixel g x y)"
proof -
  have eq: "find (\<lambda>e. edit_x e + edit_y e * width g = x + y * width g) (rev es)
              = last_edit_at es x y"
    unfolding last_edit_at_def
  proof (rule find_cong_set)
    fix e assume "e \<in> set (rev es)"
    then have "0 \<le> edit_x e" "edit_x e < width g" using assms(3) by auto
    moreover have "0 \<le> x" "x < width g" using assms(2) by (auto simp: in_bounds_def)
    ultimately show "(edit_x e + edit_y e * width g = x + y * width g)
                       = (edit_x e = x \<and> edit_y e = y)"
      using index_inj [of "edit_x e" "width g" x "edit_y e" y] by auto
  qed
  have "0 \<le> x + y * width g \<and> x + y * width g < len (pixels g)"
    using assms(1,2) index_in_range [of x "width g" y "height g"]
    by (simp add: grid_def in_bounds_def)
  then have "js_get (js_slice (pixels g)) (x + y * width g) = pixel g x y"
    by (simp add: js_get_js_slice pixel_def)
  then show ?thesis using eq by (simp add: pixel_draw_index split: option.splits)
qed

theorem pixel_draw_last_edit_witness:
  "grid sample \<and> in_bounds sample 0 1
   \<and> list_all (\<lambda>e. 0 \<le> edit_x e \<and> edit_x e < width sample)
        [\<lparr>edit_x = 0, edit_y = 1, edit_color = Str ''#000000''\<rparr>,
         \<lparr>edit_x = 1, edit_y = 1, edit_color = Str ''#111111''\<rparr>,
         \<lparr>edit_x = 0, edit_y = 1, edit_color = Str ''#222222''\<rparr>]
   \<and> pixel (draw sample
        [\<lparr>edit_x = 0, edit_y = 1, edit_color = Str ''#000000''\<rparr>,
         \<lparr>edit_x = 1, edit_y = 1, edit_color = Str ''#111111''\<rparr>,
         \<lparr>edit_x = 0, edit_y = 1, edit_color = Str ''#222222''\<rparr>]) 0 1 = Str ''#222222''
   \<and> pixel (draw sample [\<lparr>edit_x = 1, edit_y = 1, edit_color = Str ''#111111''\<rparr>]) 0 1
        = pixel sample 0 1"
proof -
  have b: "in_bounds sample 0 1" by (simp add: in_bounds_def sample_def)
  have "\<forall>e \<in> set [\<lparr>edit_x = 0, edit_y = 1, edit_color = Str ''#000000''\<rparr>,
         \<lparr>edit_x = 1, edit_y = 1, edit_color = Str ''#111111''\<rparr>,
         \<lparr>edit_x = 0, edit_y = 1, edit_color = Str ''#222222''\<rparr>].
           0 \<le> edit_x e \<and> edit_x e < width sample"
    by (simp add: sample_def)
  from pixel_draw_last_edit [OF grid_sample b this]
  have 1: "pixel (draw sample
        [\<lparr>edit_x = 0, edit_y = 1, edit_color = Str ''#000000''\<rparr>,
         \<lparr>edit_x = 1, edit_y = 1, edit_color = Str ''#111111''\<rparr>,
         \<lparr>edit_x = 0, edit_y = 1, edit_color = Str ''#222222''\<rparr>]) 0 1 = Str ''#222222''"
    by (simp add: last_edit_at_def)
  have "\<forall>e \<in> set [\<lparr>edit_x = 1, edit_y = 1, edit_color = Str ''#111111''\<rparr>].
           0 \<le> edit_x e \<and> edit_x e < width sample"
    by (simp add: sample_def)
  from pixel_draw_last_edit [OF grid_sample b this]
  have 2: "pixel (draw sample [\<lparr>edit_x = 1, edit_y = 1, edit_color = Str ''#111111''\<rparr>]) 0 1
        = pixel sample 0 1"
    by (simp add: last_edit_at_def)
  show ?thesis using 1 2 b grid_sample by (simp add: sample_def)
qed

text \<open>
  Without that condition claim C2 fails: on the 2 by 2 grid \<open>sample\<close> the single edit
  at (2, 0), outside the grid, has the index of the cell (0, 1) and changes that cell,
  though no edit is at (0, 1).
\<close>

theorem draw_out_of_bounds_edit_changes_other_cell:
  "grid sample \<and> in_bounds sample 0 1
   \<and> last_edit_at [\<lparr>edit_x = 2, edit_y = 0, edit_color = Str ''#000000''\<rparr>] 0 1 = None
   \<and> pixel sample 0 1 = Str ''#0000ff''
   \<and> pixel (draw sample [\<lparr>edit_x = 2, edit_y = 0, edit_color = Str ''#000000''\<rparr>]) 0 1
        = Str ''#000000''"
  using grid_sample
  by (simp add: last_edit_at_def in_bounds_def pixel_def draw_def sample_def js_array_def
      js_get_def js_set_def js_slice_def)

text \<open>
  Claim C9, as the code has it. On a grid, \<open>pixel\<close> at a cell inside the bounds is the
  array element at \<open>x + y * width\<close>, an index below the array's length. Outside the
  bounds nothing fails: where the index \<open>x + y * width\<close> still lies below
  \<open>width * height\<close> the result is the color of another cell, the one of that index, and
  elsewhere it is \<open>undefined\<close>.
\<close>

theorem pixel_row_major_no_bounds_check:
  assumes "grid g"
  shows "(in_bounds g x y \<longrightarrow>
            pixel g x y = slot (pixels g) (x + y * width g) \<and>
            0 \<le> x + y * width g \<and> x + y * width g < len (pixels g))
       \<and> (\<not> in_bounds g x' y' \<and> 0 \<le> x' + y' * width g \<and> x' + y' * width g < width g * height g \<longrightarrow>
            in_bounds g ((x' + y' * width g) mod width g) ((x' + y' * width g) div width g) \<and>
            pixel g x' y' = pixel g ((x' + y' * width g) mod width g) ((x' + y' * width g) div width g))
       \<and> (\<not> in_bounds g x'' y'' \<and> \<not> (0 \<le> x'' + y'' * width g \<and> x'' + y'' * width g < width g * height g) \<longrightarrow>
            pixel g x'' y'' = Undefined)"
proof (intro conjI impI)
  assume "in_bounds g x y"
  then show "0 \<le> x + y * width g" "x + y * width g < len (pixels g)"
    using assms index_in_range [of x "width g" y "height g"]
    by (simp_all add: grid_def in_bounds_def)
next
  show "pixel g x y = slot (pixels g) (x + y * width g)"
    by (simp add: pixel_def js_get_def)
next
  define i where "i = x' + y' * width g"
  assume "\<not> in_bounds g x' y' \<and> 0 \<le> x' + y' * width g \<and> x' + y' * width g < width g * height g"
  then have a: "0 \<le> i" "i < width g * height g" by (simp_all add: i_def)
  have w: "0 < width g" using assms by (simp add: grid_def)
  have "i div width g < height g" using w a(2) by (rule div_less_bound)
  moreover have "0 \<le> i div width g" using w a(1) by (simp add: pos_imp_zdiv_nonneg_iff)
  moreover have "0 \<le> i mod width g" "i mod width g < width g" using w by simp_all
  ultimately have "in_bounds g (i mod width g) (i div width g)"
    by (simp add: in_bounds_def)
  then show "in_bounds g ((x' + y' * width g) mod width g) ((x' + y' * width g) div width g)"
    by (simp only: i_def)
  have "i mod width g + i div width g * width g = i" by simp
  then have "pixel g x' y' = pixel g (i mod width g) (i div width g)"
    by (simp only: pixel_def i_def)
  then show "pixel g x' y' =
      pixel g ((x' + y' * width g) mod width g) ((x' + y' * width g) div width g)"
    by (simp only: i_def)
next
  assume "\<not> in_bounds g x'' y'' \<and>
    \<not> (0 \<le> x'' + y'' * width g \<and> x'' + y'' * width g < width g * height g)"
  then show "pixel g x'' y'' = Undefined"
    using assms by (simp add: grid_def pixel_def js_get_def)
qed

theorem pixel_row_major_no_bounds_check_witness:
  "grid sample \<and> in_bounds sample 1 1 \<and> pixel sample 1 1 = Str ''#ff0000''
   \<and> \<not> in_bounds sample 2 0 \<and> in_bounds sample 0 1
   \<and> pixel sample 2 0 = pixel sample 0 1 \<and> pixel sample 2 0 = Str ''#0000ff''
   \<and> \<not> in_bounds sample 0 2 \<and> pixel sample 0 2 = Undefined"
  using pixel_row_major_no_bounds_check [OF grid_sample, of 1 1 2 0 0 2] grid_sample
  by (simp add: sample_def in_bounds_def js_array_def pixel_def js_get_def)

text \<open>
  Claim C9 as stated fails: on the 2 by 2 grid \<open>sample\<close> the coordinate (2, 0) is
  outside the bounds and \<open>pixel\<close> returns a color there, the one of the cell (0, 1).
\<close>

theorem pixel_out_of_bounds_returns_color:
  "grid sample \<and> \<not> in_bounds sample 2 0 \<and> pixel sample 2 0 = Str ''#0000ff''"
  using grid_sample
  by (simp add: sample_def in_bounds_def js_array_def pixel_def js_get_def)

section \<open>The history reducer\<close>

lemma done_two_strokes: "done two_strokes = [stroke1, startPicture]"
  by (simp add: two_strokes_def historyUpdateState_def updateState_def picture_action_def
      no_action_def startState_def)

text \<open>
  Claim C1. For an action with a picture (and no \<open>undo\<close>, which the reducer tests
  first): when the checkpoint is more than 1000 ms old at the clock reading, the picture
  of the state before the action goes to the front of the history and the checkpoint
  becomes the clock reading; otherwise the action is merged and history and checkpoint
  stay. So a picture action on a stale checkpoint, a second one within the window of the
  new checkpoint and an undo give back the picture (and the history) from before the
  first.
\<close>

theorem picture_action_checkpoint:
  "(act_picture a = Some p \<and> \<not> act_undo a \<and> doneAt s < now - 1000 \<longrightarrow>
      done (historyUpdateState now now' s a) = picture s # done s \<and>
      doneAt (historyUpdateState now now' s a) = now' \<and>
      picture (historyUpdateState now now' s a) = p \<and>
      tool (historyUpdateState now now' s a) = tool (updateState s a) \<and>
      color (historyUpdateState now now' s a) = color (updateState s a))
   \<and> (act_picture b = Some q \<and> \<not> act_undo b \<and> \<not> doneAt r < t - 1000 \<longrightarrow>
      historyUpdateState t t' r b = updateState r b \<and>
      done (historyUpdateState t t' r b) = done r \<and>
      doneAt (historyUpdateState t t' r b) = doneAt r \<and>
      picture (historyUpdateState t t' r b) = q)
   \<and> (doneAt s0 < t1 - 1000 \<and> \<not> t1' < t2 - 1000 \<longrightarrow>
      picture (historyUpdateState t3 t3'
                (historyUpdateState t2 t2'
                  (historyUpdateState t1 t1' s0 (picture_action p1)) (picture_action p2))
                undo_action) = picture s0
      \<and> done (historyUpdateState t3 t3'
                (historyUpdateState t2 t2'
                  (historyUpdateState t1 t1' s0 (picture_action p1)) (picture_action p2))
                undo_action) = done s0)"
  by (simp add: historyUpdateState_def updateState_def picture_action_def undo_action_def
      no_action_def)

theorem picture_action_checkpoint_witness:
  "act_picture (picture_action stroke1) = Some stroke1 \<and> \<not> act_undo (picture_action stroke1)
   \<and> doneAt startState < 5000 - 1000
   \<and> done after_stroke1 = [startPicture] \<and> doneAt after_stroke1 = 5001
   \<and> act_picture (picture_action stroke2) = Some stroke2 \<and> \<not> act_undo (picture_action stroke2)
   \<and> \<not> doneAt after_stroke1 < 5400 - 1000
   \<and> done (historyUpdateState 5400 5400 after_stroke1 (picture_action stroke2)) = [startPicture]
   \<and> doneAt (historyUpdateState 5400 5400 after_stroke1 (picture_action stroke2)) = 5001
   \<and> picture (historyUpdateState 5400 5400 after_stroke1 (picture_action stroke2)) = stroke2
   \<and> picture (historyUpdateState 5900 5900
        (historyUpdateState 5400 5400 after_stroke1 (picture_action stroke2)) undo_action)
       = startPicture"
proof -
  note T = picture_action_checkpoint [where a = "picture_action stroke1" and p = stroke1
      and s = startState and now = 5000 and now' = 5001
      and b = "picture_action stroke2" and q = stroke2 and r = after_stroke1
      and t = 5400 and t' = 5400
      and ?s0.0 = startState and ?t1.0 = 5000 and t1' = 5001 and ?t2.0 = 5400 and t2' = 5400
      and ?t3.0 = 5900 and t3' = 5900 and ?p1.0 = stroke1 and ?p2.0 = stroke2,
      folded after_stroke1_def]
  have a1: "act_picture (picture_action stroke1) = Some stroke1 \<and>
      \<not> act_undo (picture_action stroke1) \<and> doneAt startState < 5000 - 1000"
    by (simp add: picture_action_def no_action_def startState_def)
  have f: "picture startState = startPicture" "done startState = []"
    by (simp_all add: startState_def)
  from T a1 have c1: "done after_stroke1 = [startPicture] \<and> doneAt after_stroke1 = 5001"
    by (simp only: f) simp
  then have a2: "act_picture (picture_action stroke2) = Some stroke2 \<and>
      \<not> act_undo (picture_action stroke2) \<and> \<not> doneAt after_stroke1 < 5400 - 1000"
    by (simp add: picture_action_def no_action_def)
  from T a2 c1
  have c2: "done (historyUpdateState 5400 5400 after_stroke1 (picture_action stroke2)) = [startPicture]
      \<and> doneAt (historyUpdateState 5400 5400 after_stroke1 (picture_action stroke2)) = 5001
      \<and> picture (historyUpdateState 5400 5400 after_stroke1 (picture_action stroke2)) = stroke2"
    by metis
  have a3: "doneAt startState < 5000 - 1000 \<and> \<not> (5001::int) < 5400 - 1000"
    by (simp add: startState_def)
  from T a3 f
  have c3: "picture (historyUpdateState 5900 5900
        (historyUpdateState 5400 5400 after_stroke1 (picture_action stroke2)) undo_action)
       = startPicture"
    by metis
  from a1 c1 a2 c2 c3 show ?thesis by blast
qed

text \<open>
  Claim C3, as the code has it. With a history that is not empty, undo makes the head of
  the history the picture, that is the grid recorded last (new entries go to the front),
  and removes it: the history is shorter by exactly one.
\<close>

theorem undo_restores_latest_checkpoint:
  "done s \<noteq> [] \<Longrightarrow>
     picture (historyUpdateState now now' s undo_action) = hd (done s) \<and>
     done (historyUpdateState now now' s undo_action) = tl (done s) \<and>
     Suc (length (done (historyUpdateState now now' s undo_action))) = length (done s)"
  by (cases "done s") (simp_all add: historyUpdateState_def undo_action_def no_action_def)

theorem undo_restores_latest_checkpoint_witness:
  "done two_strokes \<noteq> []
   \<and> picture (historyUpdateState 9500 9500 two_strokes undo_action) = stroke1
   \<and> done (historyUpdateState 9500 9500 two_strokes undo_action) = [startPicture]"
proof -
  have h: "done two_strokes \<noteq> []" by (simp add: done_two_strokes)
  show ?thesis
    using h undo_restores_latest_checkpoint [OF h, of 9500 9500]
    by (simp add: done_two_strokes)
qed

text \<open>
  Claim C3 as stated fails: after two recorded strokes the history holds the picture after
  the first stroke and, behind it, the start picture, which is the oldest entry. Undo
  gives the picture after the first stroke, not the oldest entry.
\<close>

theorem undo_not_oldest_checkpoint:
  "done two_strokes = [stroke1, startPicture]
   \<and> last (done two_strokes) = startPicture
   \<and> picture (historyUpdateState 9500 9500 two_strokes undo_action) = stroke1
   \<and> picture (historyUpdateState 9500 9500 two_strokes undo_action) \<noteq> last (done two_strokes)"
  using stroke1_neq_start
  by (simp add: done_two_strokes historyUpdateState_def undo_action_def no_action_def)

text \<open>
  Claim C8. With an empty history, the action \<open>{undo: true}\<close> gives back the very state
  it was applied to, whatever the clock says.
\<close>

theorem undo_empty_history_same_state:
  "done s = [] \<Longrightarrow> historyUpdateState now now' s undo_action = s"
  by (simp add: historyUpdateState_def undo_action_def)

theorem undo_empty_history_same_state_witness:
  "done startState = [] \<and> historyUpdateState 5000 5000 startState undo_action = startState"
proof -
  have h: "done startState = []" by (simp add: startState_def)
  show ?thesis using h undo_empty_history_same_state [OF h, of 5000 5000] by simp
qed

text \<open>
  Claim C10. With a history that is not empty, undo leaves tool and color as they were
  and sets the checkpoint to 0, so that the next action with a picture (and no \<open>undo\<close>),
  at any clock reading above 1000, puts the restored picture in front of the history.
\<close>

theorem undo_frame_and_checkpoint_reset:
  "done s \<noteq> [] \<Longrightarrow>
     tool (historyUpdateState now now' s undo_action) = tool s \<and>
     color (historyUpdateState now now' s undo_action) = color s \<and>
     doneAt (historyUpdateState now now' s undo_action) = 0 \<and>
     (1000 < t \<and> act_picture a = Some p \<and> \<not> act_undo a \<longrightarrow>
        done (historyUpdateState t t' (historyUpdateState now now' s undo_action) a)
          = picture (historyUpdateState now now' s undo_action)
              # done (historyUpdateState now now' s undo_action) \<and>
        doneAt (historyUpdateState t t' (historyUpdateState now now' s undo_action) a) = t')"
  by (simp add: historyUpdateState_def undo_action_def no_action_def updateState_def)

theorem undo_frame_and_checkpoint_reset_witness:
  "done two_strokes \<noteq> []
   \<and> tool (historyUpdateState 9500 9500 two_strokes undo_action) = ''draw''
   \<and> color (historyUpdateState 9500 9500 two_strokes undo_action) = Str ''#000000''
   \<and> doneAt (historyUpdateState 9500 9500 two_strokes undo_action) = 0
   \<and> (1000::int) < 9501 \<and> act_picture (picture_action stroke2) = Some stroke2
   \<and> \<not> act_undo (picture_action stroke2)
   \<and> done (historyUpdateState 9501 9501
        (historyUpdateState 9500 9500 two_strokes undo_action) (picture_action stroke2))
       = [stroke1, startPicture]"
proof -
  have h: "done two_strokes \<noteq> []" by (simp add: done_two_strokes)
  have ts: "tool two_strokes = ''draw''" "color two_strokes = Str ''#000000''"
    by (simp_all add: two_strokes_def historyUpdateState_def updateState_def picture_action_def
      no_action_def startState_def)
  have u: "picture (historyUpdateState 9500 9500 two_strokes undo_action) = stroke1"
      "done (historyUpdateState 9500 9500 two_strokes undo_action) = [startPicture]"
    by (simp_all add: done_two_strokes historyUpdateState_def undo_action_def no_action_def)
  show ?thesis
    using h undo_frame_and_checkpoint_reset [OF h, of 9500 9500 9501 "picture_action stroke2" stroke2 9501]
    by (simp add: ts u picture_action_def no_action_def)
qed

section \<open>Loops\<close>

lemma for_le_invariant:
  assumes "P s" and "\<And>j s. i \<le> j \<Longrightarrow> j \<le> n \<Longrightarrow> P s \<Longrightarrow> P (body j s)"
  shows "P (for_le i n body s)"
  using assms
proof (induction i n body s rule: for_le.induct)
  case (1 i n body s)
  show ?case
  proof (cases "i \<le> n")
    case True
    have "P (body i s)" using "1.prems" True by simp
    moreover have "\<And>j s. i + 1 \<le> j \<Longrightarrow> j \<le> n \<Longrightarrow> P s \<Longrightarrow> P (body j s)"
      using "1.prems"(2) by simp
    ultimately have "P (for_le (i + 1) n body (body i s))"
      using "1.IH" [OF True] by blast
    then show ?thesis using True by (subst for_le.simps) simp
  next
    case False
    then show ?thesis using "1.prems"(1) by (subst for_le.simps) simp
  qed
qed

lemma for_lt_invariant:
  assumes "P s" and "\<And>j s. i \<le> j \<Longrightarrow> j < n \<Longrightarrow> P s \<Longrightarrow> P (body j s)"
  shows "P (for_lt i n body s)"
  using assms
proof (induction i n body s rule: for_lt.induct)
  case (1 i n body s)
  show ?case
  proof (cases "i < n")
    case True
    have "P (body i s)" using "1.prems" True by simp
    moreover have "\<And>j s. i + 1 \<le> j \<Longrightarrow> j < n \<Longrightarrow> P s \<Longrightarrow> P (body j s)"
      using "1.prems"(2) by simp
    ultimately have "P (for_lt (i + 1) n body (body i s))"
      using "1.IH" [OF True] by blast
    then show ?thesis using True by (subst for_lt.simps) simp
  next
    case False
    then show ?thesis using "1.prems"(1) by (subst for_lt.simps) simp
  qed
qed

lemma for_lt_filled:
  assumes "\<And>j s. filled (body j s) = filled s @ g j"
  shows "filled (for_lt i n body s) = filled s @ concat (map g [i..n - 1])"
  using assms
proof (induction i n body s rule: for_lt.induct)
  case (1 i n body s)
  show ?case
  proof (cases "i < n")
    case True
    then have u: "[i..n - 1] = i # [i + 1..n - 1]" by (simp add: upto_rec1)
    have "filled (for_lt i n body s) = filled (for_lt (i + 1) n body (body i s))"
      using True by (subst for_lt.simps) simp
    also have "\<dots> = filled (body i s) @ concat (map g [i + 1..n - 1])"
      using "1.IH" [OF True "1.prems"] .
    also have "\<dots> = filled s @ concat (map g [i..n - 1])"
      by (simp add: "1.prems" u)
    finally show ?thesis .
  next
    case False
    then have "[i..n - 1] = []" by simp
    moreover have "for_lt i n body s = s" using False by (subst for_lt.simps) simp
    ultimately show ?thesis by simp
  qed
qed

section \<open>Flood fill\<close>

lemma expanded_append:
  "i < length drawn \<Longrightarrow> expanded s t (drawn @ xs) i = expanded s t drawn i"
proof -
  assume i: "i < length drawn"
  then have "\<And>j. j < i \<Longrightarrow> (drawn @ xs) ! j = drawn ! j"
    by (simp add: nth_append)
  moreover have "(drawn @ xs) ! i = drawn ! i" using i by (simp add: nth_append)
  ultimately show ?thesis by (simp add: expanded_def cong: conj_cong)
qed

lemma fill_inv_visit:
  assumes "fill_inv s t drawn" and "k < length drawn" and "d \<in> set around"
  shows "fill_inv s t (fill_visit s t k drawn d)"
proof -
  from fill_visit_cases [of s t k drawn d] show ?thesis
  proof
    assume "fill_visit s t k drawn d = drawn"
    then show ?thesis using assms(1) by simp
  next
    assume "\<exists>e. fill_visit s t k drawn d = drawn @ [e] \<and>
      in_bounds (picture s) (edit_x e) (edit_y e) \<and>
      pixel (picture s) (edit_x e) (edit_y e) = t \<and> edit_color e = color s \<and>
      coords e \<notin> coords ` set drawn \<and>
      coords e = (edit_x (drawn ! k) + fst d, edit_y (drawn ! k) + snd d)"
    then obtain e where e: "fill_visit s t k drawn d = drawn @ [e]"
      "in_bounds (picture s) (edit_x e) (edit_y e)"
      "pixel (picture s) (edit_x e) (edit_y e) = t" "edit_color e = color s"
      "coords e \<notin> coords ` set drawn"
      "coords e = (edit_x (drawn ! k) + fst d, edit_y (drawn ! k) + snd d)"
      by blast
    have adj: "adjacent (drawn ! k) e"
      using e(6) assms(3) by (auto simp: adjacent_def coords_def around_def)
    have new: "expanded s t (drawn @ [e]) (length drawn)"
      unfolding expanded_def
    proof (intro conjI)
      show "in_bounds (picture s) (edit_x ((drawn @ [e]) ! length drawn))
          (edit_y ((drawn @ [e]) ! length drawn))"
        using e(2) by simp
      show "pixel (picture s) (edit_x ((drawn @ [e]) ! length drawn))
          (edit_y ((drawn @ [e]) ! length drawn)) = t"
        using e(3) by simp
      have "adjacent ((drawn @ [e]) ! k) ((drawn @ [e]) ! length drawn)"
        using adj assms(2) by (simp add: nth_append)
      then show "\<exists>j<length drawn. adjacent ((drawn @ [e]) ! j) ((drawn @ [e]) ! length drawn)"
        using assms(2) by blast
    qed
    have old: "\<forall>i. 0 < i \<and> i < length drawn \<longrightarrow> expanded s t (drawn @ [e]) i"
      using assms(1) by (simp add: fill_inv_def expanded_append)
    have "\<forall>i. 0 < i \<and> i < length (drawn @ [e]) \<longrightarrow> expanded s t (drawn @ [e]) i"
    proof (intro allI impI)
      fix i assume "0 < i \<and> i < length (drawn @ [e])"
      then have "(0 < i \<and> i < length drawn) \<or> i = length drawn" by auto
      then show "expanded s t (drawn @ [e]) i" using old new by blast
    qed
    moreover have "distinct (map coords (drawn @ [e]))"
      using assms(1) e(5) by (simp add: fill_inv_def)
    moreover have "\<forall>x \<in> set (drawn @ [e]). edit_color x = color s"
      using assms(1) e(4) by (simp add: fill_inv_def)
    ultimately show ?thesis unfolding fill_inv_def e(1) by blast
  qed
qed

lemma length_fill_visit: "length drawn \<le> length (fill_visit s t k drawn d)"
  using fill_visit_cases [of s t k drawn d] by auto

lemma prefix_fill_visit: "\<exists>xs. fill_visit s t k drawn d = drawn @ xs"
  using fill_visit_cases [of s t k drawn d] by auto

lemma fill_inv_foldl:
  assumes "fill_inv s t drawn" and "k < length drawn" and "set ds \<subseteq> set around"
  shows "fill_inv s t (foldl (fill_visit s t k) drawn ds) \<and>
         (\<exists>xs. foldl (fill_visit s t k) drawn ds = drawn @ xs)"
  using assms
proof (induction ds arbitrary: drawn)
  case Nil
  then show ?case by simp
next
  case (Cons d ds)
  let ?v = "fill_visit s t k drawn d"
  have 1: "fill_inv s t ?v" using Cons.prems by (simp add: fill_inv_visit)
  have 2: "k < length ?v" using Cons.prems(2) length_fill_visit [of drawn s t k d] by simp
  have 3: "set ds \<subseteq> set around" using Cons.prems(3) by simp
  from Cons.IH [OF 1 2 3] prefix_fill_visit [of s t k drawn d]
  show ?case by auto
qed

lemma fill_inv_loop:
  "fill_inv s t drawn \<Longrightarrow>
     fill_inv s t (fill_loop s t k drawn) \<and> (\<exists>xs. fill_loop s t k drawn = drawn @ xs)"
proof (induction s t k drawn rule: fill_loop.induct)
  case (1 s t k drawn)
  show ?case
  proof (cases "k < length drawn")
    case True
    let ?d = "foldl (fill_visit s t k) drawn around"
    from fill_inv_foldl [OF "1.prems" True, of around]
    have f: "fill_inv s t ?d" and p: "\<exists>xs. ?d = drawn @ xs" by simp_all
    from "1.IH" [OF True f] p show ?thesis
      using True by (subst (1 2) fill_loop.simps) auto
  next
    case False
    then show ?thesis using "1.prems" by (subst (1 2) fill_loop.simps) simp
  qed
qed

lemma fill_inv_start:
  "fill_inv s t [\<lparr>edit_x = x, edit_y = y, edit_color = color s\<rparr>]"
  by (simp add: fill_inv_def)

lemma fill_drawn_inv:
  "fill_inv s (pixel (picture s) (pos_x p) (pos_y p)) (fill_drawn p s) \<and>
   (\<exists>xs. fill_drawn p s = \<lparr>edit_x = pos_x p, edit_y = pos_y p, edit_color = color s\<rparr> # xs)"
proof -
  have "fill_inv s (pixel (picture s) (pos_x p) (pos_y p))
      [\<lparr>edit_x = pos_x p, edit_y = pos_y p, edit_color = color s\<rparr>]"
    by (rule fill_inv_start)
  from fill_inv_loop [OF this, of 0] show ?thesis
    by (simp add: fill_drawn_def)
qed

lemma fill_drawn_in_bounds:
  assumes "in_bounds (picture s) (pos_x p) (pos_y p)"
  shows "\<forall>e \<in> set (fill_drawn p s). in_bounds (picture s) (edit_x e) (edit_y e)"
proof
  fix e assume "e \<in> set (fill_drawn p s)"
  then obtain i where i: "i < length (fill_drawn p s)" "fill_drawn p s ! i = e"
    by (auto simp: in_set_conv_nth)
  from fill_drawn_inv [of s p] obtain xs where
    inv: "fill_inv s (pixel (picture s) (pos_x p) (pos_y p)) (fill_drawn p s)" and
    hd: "fill_drawn p s = \<lparr>edit_x = pos_x p, edit_y = pos_y p, edit_color = color s\<rparr> # xs"
    by blast
  show "in_bounds (picture s) (edit_x e) (edit_y e)"
  proof (cases "i = 0")
    case True
    then have "e = \<lparr>edit_x = pos_x p, edit_y = pos_y p, edit_color = color s\<rparr>"
      using i(2) hd by simp
    then show ?thesis using assms by simp
  next
    case False
    then have "expanded s (pixel (picture s) (pos_x p) (pos_y p)) (fill_drawn p s) i"
      using inv i(1) by (simp add: fill_inv_def)
    then show ?thesis using i(2) by (simp add: expanded_def)
  qed
qed

lemma fill_drawn_target:
  "\<forall>e \<in> set (fill_drawn p s).
     pixel (picture s) (edit_x e) (edit_y e) = pixel (picture s) (pos_x p) (pos_y p) \<and>
     edit_color e = color s"
proof
  fix e assume e: "e \<in> set (fill_drawn p s)"
  then obtain i where i: "i < length (fill_drawn p s)" "fill_drawn p s ! i = e"
    by (auto simp: in_set_conv_nth)
  from fill_drawn_inv [of s p] obtain xs where
    inv: "fill_inv s (pixel (picture s) (pos_x p) (pos_y p)) (fill_drawn p s)" and
    hd: "fill_drawn p s = \<lparr>edit_x = pos_x p, edit_y = pos_y p, edit_color = color s\<rparr> # xs"
    by blast
  have c: "edit_color e = color s" using inv e by (simp add: fill_inv_def)
  have "pixel (picture s) (edit_x e) (edit_y e) = pixel (picture s) (pos_x p) (pos_y p)"
  proof (cases "i = 0")
    case True
    then have "e = \<lparr>edit_x = pos_x p, edit_y = pos_y p, edit_color = color s\<rparr>"
      using i(2) hd by simp
    then show ?thesis by simp
  next
    case False
    then have "expanded s (pixel (picture s) (pos_x p) (pos_y p)) (fill_drawn p s) i"
      using inv i(1) by (simp add: fill_inv_def)
    then show ?thesis using i(2) by (simp add: expanded_def)
  qed
  with c show "pixel (picture s) (edit_x e) (edit_y e) = pixel (picture s) (pos_x p) (pos_y p) \<and>
     edit_color e = color s" by simp
qed

lemma distinct_cells_length:
  assumes "distinct (map coords drawn)"
    and "\<forall>e \<in> set drawn. in_bounds g (edit_x e) (edit_y e)"
    and "0 \<le> width g" and "0 \<le> height g"
  shows "int (length drawn) \<le> width g * height g"
proof -
  have sub: "set (map coords drawn) \<subseteq> {0..<width g} \<times> {0..<height g}"
    using assms(2) by (auto simp: coords_def in_bounds_def)
  have "length drawn = card (set (map coords drawn))"
    using distinct_card [OF assms(1)] by simp
  also have "\<dots> \<le> card ({0..<width g} \<times> {0..<height g})"
  proof (rule card_mono)
    show "finite ({0..<width g} \<times> {0..<height g})" by simp
    show "set (map coords drawn) \<subseteq> {0..<width g} \<times> {0..<height g}" by (rule sub)
  qed
  also have "\<dots> = nat (width g) * nat (height g)"
    by (simp add: card_cartesian_product)
  finally have le: "length drawn \<le> nat (width g) * nat (height g)" .
  have "int (nat (width g) * nat (height g)) = width g * height g"
    using assms(3,4) by simp
  then show ?thesis using le by linarith
qed

lemma fill_drawn_sample:
  "fill_drawn \<lparr>pos_x = 0, pos_y = 0\<rparr> sample_state =
     [\<lparr>edit_x = 0, edit_y = 0, edit_color = Str ''#ff0000''\<rparr>,
      \<lparr>edit_x = 1, edit_y = 0, edit_color = Str ''#ff0000''\<rparr>,
      \<lparr>edit_x = 1, edit_y = 1, edit_color = Str ''#ff0000''\<rparr>]"
  by (simp add: fill_drawn_def Let_def fill_loop.simps fill_visit_def around_def
      sample_state_def sample_def pixel_def js_get_def js_array_def)

text \<open>
  Claim C5. \<open>fill_loop\<close> is a total function: the loop of the source ends for every
  picture and every start. The list it returns never holds a coordinate twice, starts with
  the start position, and each later entry is a cell inside the picture that has the color
  found at the start and is next to an earlier entry. From a start cell inside the picture
  the list has at most \<open>width * height\<close> entries.
\<close>

theorem fill_visits_each_cell_once:
  "distinct (map coords (fill_drawn p s))
   \<and> hd (fill_drawn p s) = \<lparr>edit_x = pos_x p, edit_y = pos_y p, edit_color = color s\<rparr>
   \<and> (0 < i \<and> i < length (fill_drawn p s) \<longrightarrow>
        expanded s (pixel (picture s) (pos_x p) (pos_y p)) (fill_drawn p s) i)
   \<and> (in_bounds (picture s) (pos_x p) (pos_y p) \<longrightarrow>
        int (length (fill_drawn p s)) \<le> width (picture s) * height (picture s))"
proof -
  from fill_drawn_inv [of s p] obtain xs where
    inv: "fill_inv s (pixel (picture s) (pos_x p) (pos_y p)) (fill_drawn p s)" and
    hd: "fill_drawn p s = \<lparr>edit_x = pos_x p, edit_y = pos_y p, edit_color = color s\<rparr> # xs"
    by blast
  have d: "distinct (map coords (fill_drawn p s))" using inv by (simp add: fill_inv_def)
  have "in_bounds (picture s) (pos_x p) (pos_y p) \<longrightarrow>
        int (length (fill_drawn p s)) \<le> width (picture s) * height (picture s)"
  proof
    assume b: "in_bounds (picture s) (pos_x p) (pos_y p)"
    then have "0 \<le> width (picture s)" "0 \<le> height (picture s)"
      by (simp_all add: in_bounds_def)
    with d fill_drawn_in_bounds [OF b]
    show "int (length (fill_drawn p s)) \<le> width (picture s) * height (picture s)"
      by (rule distinct_cells_length)
  qed
  then show ?thesis using inv hd d by (simp add: fill_inv_def)
qed

theorem fill_visits_each_cell_once_witness:
  "distinct (map coords (fill_drawn \<lparr>pos_x = 0, pos_y = 0\<rparr> sample_state))
   \<and> fill_drawn \<lparr>pos_x = 0, pos_y = 0\<rparr> sample_state =
     [\<lparr>edit_x = 0, edit_y = 0, edit_color = Str ''#ff0000''\<rparr>,
      \<lparr>edit_x = 1, edit_y = 0, edit_color = Str ''#ff0000''\<rparr>,
      \<lparr>edit_x = 1, edit_y = 1, edit_color = Str ''#ff0000''\<rparr>]
   \<and> expanded sample_state (Str ''#ff0000'') (fill_drawn \<lparr>pos_x = 0, pos_y = 0\<rparr> sample_state) 2
   \<and> in_bounds sample 0 0
   \<and> int (length (fill_drawn \<lparr>pos_x = 0, pos_y = 0\<rparr> sample_state)) \<le> 2 * 2"
proof -
  have b: "in_bounds sample 0 0" by (simp add: in_bounds_def sample_def)
  have t: "pixel (picture sample_state) 0 0 = Str ''#ff0000''"
    by (simp add: sample_state_def sample_def pixel_def js_get_def js_array_def)
  have l: "length (fill_drawn \<lparr>pos_x = 0, pos_y = 0\<rparr> sample_state) = 3"
    by (simp add: fill_drawn_sample)
  from fill_visits_each_cell_once [of "\<lparr>pos_x = 0, pos_y = 0\<rparr>" sample_state 2]
  have "distinct (map coords (fill_drawn \<lparr>pos_x = 0, pos_y = 0\<rparr> sample_state))
    \<and> expanded sample_state (Str ''#ff0000'') (fill_drawn \<lparr>pos_x = 0, pos_y = 0\<rparr> sample_state) 2"
    using t l by simp
  then show ?thesis using b l fill_drawn_sample by simp
qed

text \<open>
  Claim C6. On a grid, a flood fill from a cell inside the bounds whose color is the
  current drawing color gives a list of edits that is not empty, and drawing it gives back
  the same picture: every pixel reads as before, and the picture is the same value.
\<close>

theorem fill_same_color_no_change:
  assumes "grid (picture s)"
    and "in_bounds (picture s) (pos_x p) (pos_y p)"
    and "pixel (picture s) (pos_x p) (pos_y p) = color s"
  shows "fill_drawn p s \<noteq> []
       \<and> pixel (draw (picture s) (fill_drawn p s)) x y = pixel (picture s) x y
       \<and> draw (picture s) (fill_drawn p s) = picture s"
proof -
  from fill_drawn_inv [of s p] have ne: "fill_drawn p s \<noteq> []" by auto
  have "\<forall>e \<in> set (fill_drawn p s). in_bounds (picture s) (edit_x e) (edit_y e) \<and>
           edit_color e = pixel (picture s) (edit_x e) (edit_y e)"
    using fill_drawn_in_bounds [OF assms(2)] fill_drawn_target [of p s] assms(3) by simp
  with assms(1) have "draw (picture s) (fill_drawn p s) = picture s"
    by (rule draw_same_colors)
  with ne show ?thesis by simp
qed

theorem fill_same_color_no_change_witness:
  "grid (picture sample_state) \<and> in_bounds (picture sample_state) 0 0
   \<and> pixel (picture sample_state) 0 0 = color sample_state
   \<and> length (fill_drawn \<lparr>pos_x = 0, pos_y = 0\<rparr> sample_state) = 3
   \<and> pixel (draw sample (fill_drawn \<lparr>pos_x = 0, pos_y = 0\<rparr> sample_state)) 1 1 = Str ''#ff0000''
   \<and> draw sample (fill_drawn \<lparr>pos_x = 0, pos_y = 0\<rparr> sample_state) = sample"
proof -
  have g: "grid (picture sample_state)" using grid_sample by (simp add: sample_state_def)
  have b: "in_bounds (picture sample_state) (pos_x \<lparr>pos_x = 0, pos_y = 0\<rparr>) (pos_y \<lparr>pos_x = 0, pos_y = 0\<rparr>)"
    by (simp add: in_bounds_def sample_state_def sample_def)
  have c: "pixel (picture sample_state) (pos_x \<lparr>pos_x = 0, pos_y = 0\<rparr>) (pos_y \<lparr>pos_x = 0, pos_y = 0\<rparr>)
      = color sample_state"
    by (simp add: sample_state_def sample_def pixel_def js_get_def js_array_def)
  have p: "pixel sample 1 1 = Str ''#ff0000''"
    by (simp add: sample_def pixel_def js_get_def js_array_def)
  from fill_same_color_no_change [OF g b c, of 1 1] g b c p show ?thesis
    by (simp add: fill_drawn_sample) (simp add: sample_state_def)
qed

section \<open>Bounds of the edits of the tools\<close>

lemma drawRectangle_in_bounds:
  assumes "in_bounds (picture s) (pos_x start) (pos_y start)"
    and "in_bounds (picture s) (pos_x p) (pos_y p)"
  shows "all_in_bounds (picture s) (drawRectangle_drawn start s p)"
  unfolding drawRectangle_drawn_def Let_def
proof (rule for_le_invariant)
  show "all_in_bounds (picture s) []" by (simp add: all_in_bounds_def)
next
  fix y :: int and drawn :: "edit list"
  assume y: "min (pos_y start) (pos_y p) \<le> y" "y \<le> max (pos_y start) (pos_y p)"
    and d: "all_in_bounds (picture s) drawn"
  show "all_in_bounds (picture s)
      (for_le (min (pos_x start) (pos_x p)) (max (pos_x start) (pos_x p))
         (\<lambda>x drawn. drawn @ [\<lparr>edit_x = x, edit_y = y, edit_color = color s\<rparr>]) drawn)"
  proof (rule for_le_invariant)
    show "all_in_bounds (picture s) drawn" by (rule d)
  next
    fix x :: int and dr :: "edit list"
    assume "min (pos_x start) (pos_x p) \<le> x" "x \<le> max (pos_x start) (pos_x p)"
      and "all_in_bounds (picture s) dr"
    then show "all_in_bounds (picture s) (dr @ [\<lparr>edit_x = x, edit_y = y, edit_color = color s\<rparr>])"
      using y assms by (auto simp: all_in_bounds_def in_bounds_def)
  qed
qed

lemma drawCircle_in_bounds:
  "all_in_bounds (picture s) (drawCircle_drawn p s to)"
  unfolding drawCircle_drawn_def Let_def
proof (rule for_le_invariant)
  show "all_in_bounds (picture s) []" by (simp add: all_in_bounds_def)
next
  fix dy :: int and drawn :: "edit list"
  assume d: "all_in_bounds (picture s) drawn"
  let ?r = "sqrt ((real_of_int (pos_x to - pos_x p))\<^sup>2 + (real_of_int (pos_y to - pos_y p))\<^sup>2)"
  show "all_in_bounds (picture s)
      (for_le (- \<lceil>?r\<rceil>) \<lceil>?r\<rceil>
         (\<lambda>dx drawn.
            if ?r < sqrt ((real_of_int dx)\<^sup>2 + (real_of_int dy)\<^sup>2) then drawn
            else if pos_y p + dy < 0 \<or> height (picture s) \<le> pos_y p + dy \<or>
                    pos_x p + dx < 0 \<or> width (picture s) \<le> pos_x p + dx then drawn
                 else drawn @ [\<lparr>edit_x = pos_x p + dx, edit_y = pos_y p + dy, edit_color = color s\<rparr>])
         drawn)"
  proof (rule for_le_invariant)
    show "all_in_bounds (picture s) drawn" by (rule d)
  next
    fix dx :: int and dr :: "edit list"
    assume "all_in_bounds (picture s) dr"
    then show "all_in_bounds (picture s)
        (if ?r < sqrt ((real_of_int dx)\<^sup>2 + (real_of_int dy)\<^sup>2) then dr
         else if pos_y p + dy < 0 \<or> height (picture s) \<le> pos_y p + dy \<or>
                 pos_x p + dx < 0 \<or> width (picture s) \<le> pos_x p + dx then dr
              else dr @ [\<lparr>edit_x = pos_x p + dx, edit_y = pos_y p + dy, edit_color = color s\<rparr>])"
      by (auto simp: all_in_bounds_def in_bounds_def)
  qed
qed

lemma drawCircle_start_outside:
  assumes "\<not> in_bounds (picture s) (pos_x p) (pos_y p)"
  shows "drawCircle_drawn p s p = []"
  using assms
  by (auto simp: drawCircle_drawn_def Let_def for_le.simps in_bounds_def)

lemma drawRectangle_sample:
  "drawRectangle_drawn \<lparr>pos_x = 1, pos_y = 1\<rparr> sample_state \<lparr>pos_x = 0, pos_y = 0\<rparr> =
     [\<lparr>edit_x = 0, edit_y = 0, edit_color = Str ''#ff0000''\<rparr>,
      \<lparr>edit_x = 1, edit_y = 0, edit_color = Str ''#ff0000''\<rparr>,
      \<lparr>edit_x = 0, edit_y = 1, edit_color = Str ''#ff0000''\<rparr>,
      \<lparr>edit_x = 1, edit_y = 1, edit_color = Str ''#ff0000''\<rparr>]"
  by (simp add: drawRectangle_drawn_def Let_def for_le.simps sample_state_def)

lemma drawCircle_sample:
  "drawCircle_drawn \<lparr>pos_x = 0, pos_y = 0\<rparr> sample_state \<lparr>pos_x = 1, pos_y = 0\<rparr> =
     [\<lparr>edit_x = 0, edit_y = 0, edit_color = Str ''#ff0000''\<rparr>,
      \<lparr>edit_x = 1, edit_y = 0, edit_color = Str ''#ff0000''\<rparr>,
      \<lparr>edit_x = 0, edit_y = 1, edit_color = Str ''#ff0000''\<rparr>]"
  by (simp add: drawCircle_drawn_def Let_def for_le.simps sample_state_def sample_def)

text \<open>
  Where the edits of the tools do stay inside the picture. No tool can fail. With the
  pointer positions inside the picture all edits of draw, rectangle and fill are inside
  the picture. The circle tool clips: its edits are inside the picture for all positions,
  and there are none when its center is outside and the pointer has not moved. Pick
  dispatches a color and no picture.
\<close>

theorem tools_edits_in_bounds:
  "(in_bounds (picture s) (pos_x p) (pos_y p) \<longrightarrow>
      all_in_bounds (picture s) (drawPixel_drawn p s) \<and>
      all_in_bounds (picture s) (fill_drawn p s))
   \<and> (in_bounds (picture s) (pos_x p) (pos_y p) \<and> in_bounds (picture s) (pos_x q) (pos_y q) \<longrightarrow>
      all_in_bounds (picture s) (drawRectangle_drawn p s q))
   \<and> all_in_bounds (picture s) (drawCircle_drawn c s to)
   \<and> (\<not> in_bounds (picture s) (pos_x c') (pos_y c') \<longrightarrow> drawCircle_drawn c' s c' = [])
   \<and> map act_picture (fst (pick p' s)) = [None]
   \<and> fst (tool_draw p s) = [picture_action (draw (picture s) (drawPixel_drawn p s))]
   \<and> fst (rectangle p s) = [picture_action (draw (picture s) (drawRectangle_drawn p s p))]
   \<and> fst (fill p s) = [picture_action (draw (picture s) (fill_drawn p s))]
   \<and> fst (circle c s) = [picture_action (draw (picture s) (drawCircle_drawn c s c))]"
proof (intro conjI impI)
  assume b: "in_bounds (picture s) (pos_x p) (pos_y p)"
  then show "all_in_bounds (picture s) (drawPixel_drawn p s)"
    by (simp add: all_in_bounds_def drawPixel_drawn_def)
  show "all_in_bounds (picture s) (fill_drawn p s)"
    using fill_drawn_in_bounds [OF b] by (simp add: all_in_bounds_def list_all_iff)
next
  assume "in_bounds (picture s) (pos_x p) (pos_y p) \<and> in_bounds (picture s) (pos_x q) (pos_y q)"
  then show "all_in_bounds (picture s) (drawRectangle_drawn p s q)"
    by (simp add: drawRectangle_in_bounds)
next
  show "all_in_bounds (picture s) (drawCircle_drawn c s to)"
    by (rule drawCircle_in_bounds)
next
  assume "\<not> in_bounds (picture s) (pos_x c') (pos_y c')"
  then show "drawCircle_drawn c' s c' = []" by (rule drawCircle_start_outside)
next
  show "map act_picture (fst (pick p' s)) = [None]"
    by (simp add: pick_def color_action_def no_action_def)
  show "fst (tool_draw p s) = [picture_action (draw (picture s) (drawPixel_drawn p s))]"
    by (simp add: tool_draw_def drawPixel_def)
  show "fst (rectangle p s) = [picture_action (draw (picture s) (drawRectangle_drawn p s p))]"
    by (simp add: rectangle_def drawRectangle_def)
  show "fst (fill p s) = [picture_action (draw (picture s) (fill_drawn p s))]"
    by (simp add: fill_def)
  show "fst (circle c s) = [picture_action (draw (picture s) (drawCircle_drawn c s c))]"
    by (simp add: circle_def drawCircle_def)
qed

theorem tools_edits_in_bounds_witness:
  "in_bounds (picture sample_state) 1 1 \<and> in_bounds (picture sample_state) 0 0
   \<and> all_in_bounds sample (drawPixel_drawn \<lparr>pos_x = 1, pos_y = 1\<rparr> sample_state)
   \<and> all_in_bounds sample (fill_drawn \<lparr>pos_x = 1, pos_y = 1\<rparr> sample_state)
   \<and> all_in_bounds sample
        (drawRectangle_drawn \<lparr>pos_x = 1, pos_y = 1\<rparr> sample_state \<lparr>pos_x = 0, pos_y = 0\<rparr>)
   \<and> length (drawRectangle_drawn \<lparr>pos_x = 1, pos_y = 1\<rparr> sample_state \<lparr>pos_x = 0, pos_y = 0\<rparr>) = 4
   \<and> all_in_bounds sample
        (drawCircle_drawn \<lparr>pos_x = 0, pos_y = 0\<rparr> sample_state \<lparr>pos_x = 1, pos_y = 0\<rparr>)
   \<and> length (drawCircle_drawn \<lparr>pos_x = 0, pos_y = 0\<rparr> sample_state \<lparr>pos_x = 1, pos_y = 0\<rparr>) = 3
   \<and> \<not> in_bounds (picture sample_state) 5 5
   \<and> drawCircle_drawn \<lparr>pos_x = 5, pos_y = 5\<rparr> sample_state \<lparr>pos_x = 5, pos_y = 5\<rparr> = []"
proof -
  note T = tools_edits_in_bounds [where s = sample_state and p = "\<lparr>pos_x = 1, pos_y = 1\<rparr>"
      and q = "\<lparr>pos_x = 0, pos_y = 0\<rparr>" and c = "\<lparr>pos_x = 0, pos_y = 0\<rparr>"
      and to = "\<lparr>pos_x = 1, pos_y = 0\<rparr>" and c' = "\<lparr>pos_x = 5, pos_y = 5\<rparr>"]
  have s: "picture sample_state = sample" by (simp add: sample_state_def)
  have b: "in_bounds (picture sample_state) 1 1" "in_bounds (picture sample_state) 0 0"
      "\<not> in_bounds (picture sample_state) 5 5"
    by (simp_all add: in_bounds_def sample_state_def sample_def)
  from T b have "all_in_bounds sample (drawPixel_drawn \<lparr>pos_x = 1, pos_y = 1\<rparr> sample_state)
   \<and> all_in_bounds sample (fill_drawn \<lparr>pos_x = 1, pos_y = 1\<rparr> sample_state)
   \<and> all_in_bounds sample
        (drawRectangle_drawn \<lparr>pos_x = 1, pos_y = 1\<rparr> sample_state \<lparr>pos_x = 0, pos_y = 0\<rparr>)
   \<and> all_in_bounds sample
        (drawCircle_drawn \<lparr>pos_x = 0, pos_y = 0\<rparr> sample_state \<lparr>pos_x = 1, pos_y = 0\<rparr>)
   \<and> drawCircle_drawn \<lparr>pos_x = 5, pos_y = 5\<rparr> sample_state \<lparr>pos_x = 5, pos_y = 5\<rparr> = []"
    by (simp add: s)
  then show ?thesis using b by (simp add: drawRectangle_sample drawCircle_sample)
qed

text \<open>
  Claim C4 says that every tool clips to the bounds of the grid: a pointer position
  outside the grid gives no edit, and no coordinate outside the bounds is ever in an edit.
  The circle tool does so and the flood fill tests its neighbours, but the draw tool does
  not test its position: on the start state the draw tool at (60, 0), outside the 60 by 30
  picture, emits one edit at (60, 0), and \<open>draw\<close> writes it over the cell (0, 1), which
  the pointer never touched.
\<close>

theorem tool_draw_outside_grid_emits_edit:
  "\<not> in_bounds (picture startState) 60 0
   \<and> drawPixel_drawn \<lparr>pos_x = 60, pos_y = 0\<rparr> startState =
       [\<lparr>edit_x = 60, edit_y = 0, edit_color = Str ''#000000''\<rparr>]
   \<and> fst (tool_draw \<lparr>pos_x = 60, pos_y = 0\<rparr> startState) =
       [picture_action (draw startPicture [\<lparr>edit_x = 60, edit_y = 0, edit_color = Str ''#000000''\<rparr>])]
   \<and> pixel startPicture 0 1 = Str ''#f0f0f0''
   \<and> pixel (draw startPicture [\<lparr>edit_x = 60, edit_y = 0, edit_color = Str ''#000000''\<rparr>]) 0 1
       = Str ''#000000''"
  by (simp add: in_bounds_def startState_def tool_draw_def drawPixel_def drawPixel_drawn_def
      pixel_draw_index)
    (simp add: startPicture_def pixel_def js_get_def)

section \<open>The renderer\<close>

lemma concat_map_if_row:
  "concat (map (\<lambda>x. if P (x, y) then [f (x, y)] else []) xs)
     = map f (filter P (map (\<lambda>x. (x, y)) xs))"
  by (induction xs) simp_all

lemma distinct_rows:
  "distinct ys \<Longrightarrow> distinct xs \<Longrightarrow> distinct (concat (map (\<lambda>y. map (\<lambda>x. (x, y)) xs) ys))"
  by (induction ys) (auto simp: distinct_map inj_on_def)

lemma filled_drawPicture:
  "filled (drawPicture p cv sc prev) =
     filled cv @ map (cell_rect p sc) (filter (changed p prev) (cells p))"
proof -
  define prev1 where "prev1 = (if repaint_all p prev then None else prev)"
  define cv1 where "cv1 = (if repaint_all p prev
      then cv\<lparr>canvas_width := width p * sc, canvas_height := height p * sc\<rparr> else cv)"
  define step :: "int \<Rightarrow> int \<Rightarrow> canvas \<Rightarrow> canvas" where "step = (\<lambda>y x cx.
      if (case prev1 of None \<Rightarrow> True | Some q \<Rightarrow> pixel q x y \<noteq> pixel p x y)
      then cx\<lparr>fillStyle := pixel p x y,
              filled := filled cx @
                [\<lparr>rect_x = x * sc, rect_y = y * sc, rect_w = sc, rect_h = sc,
                  rect_style = pixel p x y\<rparr>]\<rparr>
      else cx)"
  have dp: "drawPicture p cv sc prev =
      for_lt 0 (height p) (\<lambda>y. for_lt 0 (width p) (step y)) cv1"
    by (simp add: drawPicture_def Let_def step_def cv1_def prev1_def repaint_all_def)
  have ch: "\<And>x y. (case prev1 of None \<Rightarrow> True | Some q \<Rightarrow> pixel q x y \<noteq> pixel p x y)
      = changed p prev (x, y)"
    by (auto simp: prev1_def changed_def repaint_all_def split: option.splits)
  have st: "\<And>y x cx. filled (step y x cx) =
      filled cx @ (if changed p prev (x, y) then [cell_rect p sc (x, y)] else [])"
    by (simp add: step_def ch cell_rect_def)
  have inner: "\<And>y cx. filled (for_lt 0 (width p) (step y) cx) =
      filled cx @ map (cell_rect p sc)
        (filter (changed p prev) (map (\<lambda>x. (x, y)) [0..width p - 1]))"
  proof -
    fix y cx
    have "filled (for_lt 0 (width p) (step y) cx) =
        filled cx @ concat (map (\<lambda>x. if changed p prev (x, y) then [cell_rect p sc (x, y)] else [])
          [0..width p - 1])"
      by (rule for_lt_filled) (rule st)
    also have "concat (map (\<lambda>x. if changed p prev (x, y) then [cell_rect p sc (x, y)] else [])
          [0..width p - 1])
        = map (cell_rect p sc) (filter (changed p prev) (map (\<lambda>x. (x, y)) [0..width p - 1]))"
      by (rule concat_map_if_row)
    finally show "filled (for_lt 0 (width p) (step y) cx) =
      filled cx @ map (cell_rect p sc)
        (filter (changed p prev) (map (\<lambda>x. (x, y)) [0..width p - 1]))" .
  qed
  have "filled (for_lt 0 (height p) (\<lambda>y. for_lt 0 (width p) (step y)) cv1) =
      filled cv1 @ concat (map (\<lambda>y. map (cell_rect p sc)
        (filter (changed p prev) (map (\<lambda>x. (x, y)) [0..width p - 1]))) [0..height p - 1])"
    by (rule for_lt_filled) (rule inner)
  also have "filled cv1 = filled cv" by (simp add: cv1_def)
  also have "concat (map (\<lambda>y. map (cell_rect p sc)
        (filter (changed p prev) (map (\<lambda>x. (x, y)) [0..width p - 1]))) [0..height p - 1])
      = map (cell_rect p sc) (filter (changed p prev) (cells p))"
    by (simp add: cells_def map_concat filter_concat comp_def)
  finally show ?thesis by (simp add: dp)
qed

lemma set_cells: "set (cells p) = {(x, y). in_bounds p x y}"
  by (auto simp: cells_def in_bounds_def)

lemma distinct_cells: "distinct (cells p)"
  by (simp add: cells_def distinct_rows)

lemma changed_repaint: "repaint_all p prev \<Longrightarrow> filter (changed p prev) cs = cs"
  by (simp add: changed_def)

lemma changed_same_size:
  "width q = width p \<Longrightarrow> height q = height p \<Longrightarrow>
     changed p (Some q) = (\<lambda>c. pixel q (fst c) (snd c) \<noteq> pixel p (fst c) (snd c))"
  by (simp add: changed_def repaint_all_def fun_eq_iff)

lemma size_drawPicture:
  "canvas_width (drawPicture p cv sc prev) =
     (if repaint_all p prev then width p * sc else canvas_width cv) \<and>
   canvas_height (drawPicture p cv sc prev) =
     (if repaint_all p prev then height p * sc else canvas_height cv)"
proof -
  define W where "W = (if repaint_all p prev then width p * sc else canvas_width cv)"
  define H where "H = (if repaint_all p prev then height p * sc else canvas_height cv)"
  have "canvas_width (drawPicture p cv sc prev) = W \<and>
      canvas_height (drawPicture p cv sc prev) = H"
    unfolding drawPicture_def Let_def
  proof (rule for_lt_invariant [where P = "\<lambda>cx. canvas_width cx = W \<and> canvas_height cx = H"])
    show "canvas_width
       (if case prev of None \<Rightarrow> True | Some q \<Rightarrow> width q \<noteq> width p \<or> height q \<noteq> height p
        then cv\<lparr>canvas_width := width p * sc, canvas_height := height p * sc\<rparr> else cv) = W \<and>
      canvas_height
       (if case prev of None \<Rightarrow> True | Some q \<Rightarrow> width q \<noteq> width p \<or> height q \<noteq> height p
        then cv\<lparr>canvas_width := width p * sc, canvas_height := height p * sc\<rparr> else cv) = H"
      by (simp add: W_def H_def repaint_all_def)
  next
    fix y :: int and cx :: canvas
    assume cx: "canvas_width cx = W \<and> canvas_height cx = H"
    show "canvas_width (for_lt 0 (width p)
          (\<lambda>x cx. if case if case prev of None \<Rightarrow> True
                                | Some q \<Rightarrow> width q \<noteq> width p \<or> height q \<noteq> height p
                             then None else prev of
                        None \<Rightarrow> True | Some q \<Rightarrow> pixel q x y \<noteq> pixel p x y
                     then cx\<lparr>fillStyle := pixel p x y,
                            filled := filled cx @
                              [\<lparr>rect_x = x * sc, rect_y = y * sc, rect_w = sc, rect_h = sc,
                                rect_style = pixel p x y\<rparr>]\<rparr>
                     else cx) cx) = W \<and>
       canvas_height (for_lt 0 (width p)
          (\<lambda>x cx. if case if case prev of None \<Rightarrow> True
                                | Some q \<Rightarrow> width q \<noteq> width p \<or> height q \<noteq> height p
                             then None else prev of
                        None \<Rightarrow> True | Some q \<Rightarrow> pixel q x y \<noteq> pixel p x y
                     then cx\<lparr>fillStyle := pixel p x y,
                            filled := filled cx @
                              [\<lparr>rect_x = x * sc, rect_y = y * sc, rect_w = sc, rect_h = sc,
                                rect_style = pixel p x y\<rparr>]\<rparr>
                     else cx) cx) = H"
      by (rule for_lt_invariant [where P = "\<lambda>cx. canvas_width cx = W \<and> canvas_height cx = H"])
        (simp_all add: cx)
  qed
  then show ?thesis by (simp add: W_def H_def)
qed

lemma drawPicture_same_value:
  assumes "width q = width p" and "height q = height p"
    and "\<forall>x y. in_bounds p x y \<longrightarrow> pixel q x y = pixel p x y"
  shows "drawPicture p cv sc (Some q) = cv"
  unfolding drawPicture_def Let_def
proof (rule for_lt_invariant [where P = "\<lambda>cx. cx = cv"])
  show "(if case Some q of None \<Rightarrow> True | Some q \<Rightarrow> width q \<noteq> width p \<or> height q \<noteq> height p
        then cv\<lparr>canvas_width := width p * sc, canvas_height := height p * sc\<rparr> else cv) = cv"
    using assms(1,2) by simp
next
  fix y :: int and cx :: canvas
  assume y: "0 \<le> y" "y < height p" and cx: "cx = cv"
  show "for_lt 0 (width p)
          (\<lambda>x cx. if case if case Some q of None \<Rightarrow> True
                                | Some q \<Rightarrow> width q \<noteq> width p \<or> height q \<noteq> height p
                             then None else Some q of
                        None \<Rightarrow> True | Some q \<Rightarrow> pixel q x y \<noteq> pixel p x y
                     then cx\<lparr>fillStyle := pixel p x y,
                            filled := filled cx @
                              [\<lparr>rect_x = x * sc, rect_y = y * sc, rect_w = sc, rect_h = sc,
                                rect_style = pixel p x y\<rparr>]\<rparr>
                     else cx) cx = cv"
  proof (rule for_lt_invariant [where P = "\<lambda>cx. cx = cv"])
    show "cx = cv" by (rule cx)
  next
    fix x :: int and c :: canvas
    assume x: "0 \<le> x" "x < width p" and c: "c = cv"
    have "pixel q x y = pixel p x y" using assms(3) x y by (simp add: in_bounds_def)
    then show "(if case if case Some q of None \<Rightarrow> True
                                | Some q \<Rightarrow> width q \<noteq> width p \<or> height q \<noteq> height p
                             then None else Some q of
                        None \<Rightarrow> True | Some q \<Rightarrow> pixel q x y \<noteq> pixel p x y
                     then c\<lparr>fillStyle := pixel p x y,
                            filled := filled c @
                              [\<lparr>rect_x = x * sc, rect_y = y * sc, rect_w = sc, rect_h = sc,
                                rect_style = pixel p x y\<rparr>]\<rparr>
                     else c) = cv"
      using assms(1,2) c by simp
  qed
qed

lemma cells_sample_edited: "cells sample_edited = [(0, 0), (1, 0), (0, 1), (1, 1)]"
  by (simp add: cells_def sample_edited_def draw_def sample_def upto_rec1)

text \<open>
  Claim C7. With a previous picture of the same size, \<open>drawPicture\<close> calls \<open>fillRect\<close>
  for exactly the cells whose color differs, once each and in row order, and leaves the
  size of the canvas alone. With no previous picture, or one of another size, it sets the
  size of the canvas and calls \<open>fillRect\<close> for every cell. With a previous picture equal
  to the new one in size and in every cell it changes nothing. \<open>cells\<close> lists each cell
  of the picture once. \<open>syncState\<close> with the picture object it already shows does
  nothing.
\<close>

theorem drawPicture_draws_changed_cells:
  "(width q = width p \<and> height q = height p \<longrightarrow>
      filled (drawPicture p cv sc (Some q)) =
        filled cv @ map (cell_rect p sc)
          (filter (\<lambda>c. pixel q (fst c) (snd c) \<noteq> pixel p (fst c) (snd c)) (cells p)) \<and>
      canvas_width (drawPicture p cv sc (Some q)) = canvas_width cv \<and>
      canvas_height (drawPicture p cv sc (Some q)) = canvas_height cv)
   \<and> (repaint_all p prev \<longrightarrow>
      filled (drawPicture p cv sc prev) = filled cv @ map (cell_rect p sc) (cells p) \<and>
      canvas_width (drawPicture p cv sc prev) = width p * sc \<and>
      canvas_height (drawPicture p cv sc prev) = height p * sc)
   \<and> (width q' = width p \<and> height q' = height p \<and>
      (\<forall>x y. in_bounds p x y \<longrightarrow> pixel q' x y = pixel p x y) \<longrightarrow>
      drawPicture p cv sc (Some q') = cv)
   \<and> distinct (cells p) \<and> set (cells p) = {(x, y). in_bounds p x y}
   \<and> (picture_ref this = Some r \<longrightarrow> syncState heap this r = this)"
proof (intro conjI impI)
  assume a: "width q = width p \<and> height q = height p"
  then have n: "\<not> repaint_all p (Some q)" by (simp add: repaint_all_def)
  show "filled (drawPicture p cv sc (Some q)) =
        filled cv @ map (cell_rect p sc)
          (filter (\<lambda>c. pixel q (fst c) (snd c) \<noteq> pixel p (fst c) (snd c)) (cells p))"
    using a by (simp add: filled_drawPicture changed_same_size)
  show "canvas_width (drawPicture p cv sc (Some q)) = canvas_width cv"
    using n size_drawPicture [of p cv sc "Some q"] by simp
  show "canvas_height (drawPicture p cv sc (Some q)) = canvas_height cv"
    using n size_drawPicture [of p cv sc "Some q"] by simp
next
  assume r: "repaint_all p prev"
  show "filled (drawPicture p cv sc prev) = filled cv @ map (cell_rect p sc) (cells p)"
    using r by (simp add: filled_drawPicture changed_repaint)
  show "canvas_width (drawPicture p cv sc prev) = width p * sc"
    using r size_drawPicture [of p cv sc prev] by simp
  show "canvas_height (drawPicture p cv sc prev) = height p * sc"
    using r size_drawPicture [of p cv sc prev] by simp
next
  assume "width q' = width p \<and> height q' = height p \<and>
      (\<forall>x y. in_bounds p x y \<longrightarrow> pixel q' x y = pixel p x y)"
  then show "drawPicture p cv sc (Some q') = cv"
    by (simp add: drawPicture_same_value)
next
  show "distinct (cells p)" by (rule distinct_cells)
  show "set (cells p) = {(x, y). in_bounds p x y}" by (rule set_cells)
next
  assume "picture_ref this = Some r"
  then show "syncState heap this r = this" by (simp add: syncState_def)
qed

theorem drawPicture_draws_changed_cells_witness:
  "width sample = width sample_edited \<and> height sample = height sample_edited
   \<and> filled (drawPicture sample_edited blank_canvas scale (Some sample)) =
       [\<lparr>rect_x = 0, rect_y = 10, rect_w = 10, rect_h = 10, rect_style = Str ''#000000''\<rparr>]
   \<and> repaint_all sample_edited None
   \<and> filled (drawPicture sample_edited blank_canvas scale None) =
       [\<lparr>rect_x = 0, rect_y = 0, rect_w = 10, rect_h = 10, rect_style = Str ''#ff0000''\<rparr>,
        \<lparr>rect_x = 10, rect_y = 0, rect_w = 10, rect_h = 10, rect_style = Str ''#ff0000''\<rparr>,
        \<lparr>rect_x = 0, rect_y = 10, rect_w = 10, rect_h = 10, rect_style = Str ''#000000''\<rparr>,
        \<lparr>rect_x = 10, rect_y = 10, rect_w = 10, rect_h = 10, rect_style = Str ''#ff0000''\<rparr>]
   \<and> canvas_width (drawPicture sample_edited blank_canvas scale None) = 20
   \<and> drawPicture sample_edited blank_canvas scale (Some sample_edited) = blank_canvas
   \<and> syncState (\<lambda>_. sample_edited) \<lparr>dom_canvas = blank_canvas, picture_ref = Some 1\<rparr> 1
       = \<lparr>dom_canvas = blank_canvas, picture_ref = Some 1\<rparr>"
proof -
  note T = drawPicture_draws_changed_cells [where p = sample_edited and q = sample
      and cv = blank_canvas and sc = scale and prev = None and q' = sample_edited
      and this = "\<lparr>dom_canvas = blank_canvas, picture_ref = Some 1\<rparr>" and r = 1
      and heap = "\<lambda>_. sample_edited"]
  have d: "width sample = width sample_edited \<and> height sample = height sample_edited"
    by (simp add: sample_edited_def draw_def)
  have w: "width sample_edited = 2" "height sample_edited = 2"
    by (simp_all add: sample_edited_def draw_def sample_def)
  have ps: "pixel sample 0 0 = Str ''#ff0000''" "pixel sample 1 0 = Str ''#ff0000''"
      "pixel sample 0 1 = Str ''#0000ff''" "pixel sample 1 1 = Str ''#ff0000''"
    by (simp_all add: pixel_def sample_def js_array_def js_get_def)
  have r: "repaint_all sample_edited None" by (simp add: repaint_all_def)
  from T d have 1: "filled (drawPicture sample_edited blank_canvas scale (Some sample)) =
       [\<lparr>rect_x = 0, rect_y = 10, rect_w = 10, rect_h = 10, rect_style = Str ''#000000''\<rparr>]"
    by (simp add: cells_sample_edited pixel_sample_edited ps cell_rect_def scale_def
        blank_canvas_def)
  from T r have 2: "filled (drawPicture sample_edited blank_canvas scale None) =
       [\<lparr>rect_x = 0, rect_y = 0, rect_w = 10, rect_h = 10, rect_style = Str ''#ff0000''\<rparr>,
        \<lparr>rect_x = 10, rect_y = 0, rect_w = 10, rect_h = 10, rect_style = Str ''#ff0000''\<rparr>,
        \<lparr>rect_x = 0, rect_y = 10, rect_w = 10, rect_h = 10, rect_style = Str ''#000000''\<rparr>,
        \<lparr>rect_x = 10, rect_y = 10, rect_w = 10, rect_h = 10, rect_style = Str ''#ff0000''\<rparr>]"
      and 3: "canvas_width (drawPicture sample_edited blank_canvas scale None) = 20"
    by (simp_all add: cells_sample_edited pixel_sample_edited ps cell_rect_def scale_def
        blank_canvas_def w)
  from T have 4: "drawPicture sample_edited blank_canvas scale (Some sample_edited) = blank_canvas"
    by simp
  from T have 5: "syncState (\<lambda>_. sample_edited) \<lparr>dom_canvas = blank_canvas, picture_ref = Some 1\<rparr> 1
       = \<lparr>dom_canvas = blank_canvas, picture_ref = Some 1\<rparr>"
    by simp
  from d 1 r 2 3 4 5 show ?thesis by blast
qed

end
